theory Spec2Isabelle
  imports Complex_Main "HOL-Library.AList"
begin

section \<open>Python values read from JSON\<close>

text \<open>
  The three exporters under \<^verbatim>\<open>Security/trivy\<close> read Trivy reports with
  \<^verbatim>\<open>json.load\<close> / \<^verbatim>\<open>json.loads\<close> and walk the decoded value with
  \<^verbatim>\<open>.get\<close>, \<^verbatim>\<open>for\<close>, \<^verbatim>\<open>in\<close> and truth tests. A decoded document is a
  value of the type below. JSON numbers are Python integers here; floating-point numbers
  are left out of the model. An object keeps its members in document order; the decoder
  lets the last of several equal keys win.
\<close>

datatype json =
    JNull
  | JBool bool
  | JInt int
  | JStr string
  | JArr "json list"
  | JObj "(string \<times> json) list"

text \<open>The exceptions the modelled code can raise.\<close>

datatype exn =
  TypeError | AttributeError | ValueError | OSError | JSONDecodeError | PermissionError | OtherError

text \<open>Python truth value of a decoded value (\<^verbatim>\<open>if x:\<close>, \<^verbatim>\<open>x or []\<close>).\<close>

fun truthy :: "json \<Rightarrow> bool" where
  "truthy JNull = False"
| "truthy (JBool b) = b"
| "truthy (JInt i) = (i \<noteq> 0)"
| "truthy (JStr s) = (s \<noteq> [])"
| "truthy (JArr xs) = (xs \<noteq> [])"
| "truthy (JObj kvs) = (kvs \<noteq> [])"

text \<open>
  \<^verbatim>\<open>d.get(key, default)\<close>: only a dict has the method; on a dict the stored value is
  returned even when it is \<^verbatim>\<open>None\<close>, and the default only when the key is missing.
\<close>

fun py_get :: "json \<Rightarrow> string \<Rightarrow> json \<Rightarrow> exn + json" where
  "py_get (JObj kvs) key dflt =
     (case map_of (rev kvs) key of None \<Rightarrow> Inr dflt | Some v \<Rightarrow> Inr v)"
| "py_get _ key dflt = Inl AttributeError"

text \<open>
  \<^verbatim>\<open>for x in v\<close>: a list yields its elements, a dict its keys, a string its characters;
  anything else is not iterable.
\<close>

fun py_iter :: "json \<Rightarrow> exn + json list" where
  "py_iter (JArr xs) = Inr xs"
| "py_iter (JObj kvs) = Inr (map JStr (remdups (map fst kvs)))"
| "py_iter (JStr s) = Inr (map (\<lambda>c. JStr [c]) s)"
| "py_iter _ = Inl TypeError"

text \<open>Python \<^verbatim>\<open>==\<close> on decoded scalars: \<^verbatim>\<open>True == 1\<close> and \<^verbatim>\<open>False == 0\<close>.\<close>

fun py_eq :: "json \<Rightarrow> json \<Rightarrow> bool" where
  "py_eq (JBool b) (JInt i) = (i = (if b then 1 else 0))"
| "py_eq (JInt i) (JBool b) = (i = (if b then 1 else 0))"
| "py_eq a b = (a = b)"

text \<open>\<^verbatim>\<open>sub in s\<close> on strings: \<^verbatim>\<open>sub\<close> occurs in \<^verbatim>\<open>s\<close> as a contiguous piece.\<close>

fun occurs_in :: "string \<Rightarrow> string \<Rightarrow> bool" where
  "occurs_in sub [] = (sub = [])"
| "occurs_in sub (c # cs) = (take (length sub) (c # cs) = sub \<or> occurs_in sub cs)"

text \<open>
  \<^verbatim>\<open>key in v\<close> for a string \<^verbatim>\<open>key\<close>: key membership on a dict, element membership
  on a list, substring test on a string, \<^verbatim>\<open>TypeError\<close> on the rest.
\<close>

fun py_contains :: "string \<Rightarrow> json \<Rightarrow> exn + bool" where
  "py_contains key (JObj kvs) = Inr (key \<in> set (map fst kvs))"
| "py_contains key (JArr xs) = Inr (list_ex (py_eq (JStr key)) xs)"
| "py_contains key (JStr s) = Inr (occurs_in key s)"
| "py_contains key _ = Inl TypeError"

text \<open>
  A metric label value is \<^verbatim>\<open>str(v)\<close> (prometheus_client converts every label value).
  On a string that is the string itself; the rendering of the other values is Python's
  own and is taken as the parameter \<open>repr\<close>.
\<close>

fun label :: "(json \<Rightarrow> string) \<Rightarrow> json \<Rightarrow> string" where
  "label repr (JStr s) = s"
| "label repr v = repr v"

section \<open>The inventory-backed exporter (trivy-prometheus-exporter.py)\<close>

text \<open>
  The module-level metrics. A labelled gauge is a map from its label values to the value
  last set; the histogram keeps, per image, the observations in the order they were made.
  Clock readings and durations are real numbers. \<open>slept\<close> lists the arguments of the
  calls of \<^verbatim>\<open>time.sleep\<close>, oldest first.
\<close>

record registry =
  vulnerability_gauge :: "string list \<rightharpoonup> nat"
  last_scan_timestamp :: "string \<times> string \<rightharpoonup> real"
  scan_duration :: "string \<Rightarrow> real list"
  scan_errors :: "string \<times> string \<rightharpoonup> nat"
  slept :: "int list"

definition registry0 :: registry where
  "registry0 = \<lparr>vulnerability_gauge = Map.empty, last_scan_timestamp = Map.empty,
     scan_duration = (\<lambda>_. []), scan_errors = Map.empty, slept = []\<rparr>"

text \<open>
  What \<^verbatim>\<open>json.loads(result.stdout)\<close> makes of the captured output, and
  \<^verbatim>\<open>json.load(f)\<close> of a report file: it raises, or returns the decoded document.
\<close>

datatype decoded = Undecodable | Document json

text \<open>
  What \<^verbatim>\<open>subprocess.run(cmd, capture_output=True, text=True, timeout=300)\<close> does:
  it returns with an exit code and the captured output, raises
  \<^verbatim>\<open>subprocess.TimeoutExpired\<close>, or raises something else (the command cannot be started).
\<close>

datatype proc = Completed int decoded | TimeoutExpired | OtherException

text \<open>
  One scan attempt as the environment decides it: the three readings of
  \<^verbatim>\<open>time.time()\<close> in \<^verbatim>\<open>scan_image\<close> and the behaviour of the subprocess.
\<close>

record attempt =
  start_time :: real
  run :: proc
  end_time :: real
  stamp_time :: real

definition set_error :: "string \<Rightarrow> string \<Rightarrow> nat \<Rightarrow> registry \<Rightarrow> registry" where
  "set_error img namespace v m =
     m\<lparr>scan_errors := (scan_errors m)((img, namespace) \<mapsto> v)\<rparr>"

definition observe :: "string \<Rightarrow> real \<Rightarrow> registry \<Rightarrow> registry" where
  "observe img d m = m\<lparr>scan_duration := (scan_duration m)(img := scan_duration m img @ [d])\<rparr>"

text \<open>
  \<^verbatim>\<open>TrivyExporter.scan_image\<close>. The result is the value returned (\<open>JNull\<close> for
  \<^verbatim>\<open>None\<close>) and the registry after the call. Every exception is caught inside.
\<close>

definition scan_image :: "string \<Rightarrow> string \<Rightarrow> attempt \<Rightarrow> registry \<Rightarrow> json \<times> registry" where
  "scan_image img namespace a m =
     (case run a of
        Completed returncode out \<Rightarrow>
          (let m1 = observe img (end_time a - start_time a) m in
           if returncode \<noteq> 0 then (JNull, set_error img namespace 1 m1)
           else (case out of
                   Undecodable \<Rightarrow> (JNull, set_error img namespace 1 m1)
                 | Document scan_data \<Rightarrow>
                     (scan_data,
                      set_error img namespace 0
                        (m1\<lparr>last_scan_timestamp :=
                              (last_scan_timestamp m1)((img, namespace) \<mapsto> stamp_time a)\<rparr>))))
      | TimeoutExpired \<Rightarrow> (JNull, set_error img namespace 1 m)
      | OtherException \<Rightarrow> (JNull, set_error img namespace 1 m))"

text \<open>
  The body of the inner loop of \<^verbatim>\<open>process_scan_results\<close> for one entry of
  \<^verbatim>\<open>Vulnerabilities\<close>: five \<^verbatim>\<open>.get\<close> calls, then the gauge is set to 1 under the
  seven labels, in the order the gauge declares them.
\<close>

definition process_vuln ::
  "(json \<Rightarrow> string) \<Rightarrow> string \<Rightarrow> string \<Rightarrow> json \<Rightarrow> registry \<Rightarrow> exn option \<times> registry" where
  "process_vuln repr img namespace vuln m =
     (case py_get vuln ''Severity'' (JStr ''UNKNOWN'') of Inl e \<Rightarrow> (Some e, m) | Inr severity \<Rightarrow>
      case py_get vuln ''VulnerabilityID'' (JStr ''N/A'') of Inl e \<Rightarrow> (Some e, m) | Inr vuln_id \<Rightarrow>
      case py_get vuln ''PkgName'' (JStr ''N/A'') of Inl e \<Rightarrow> (Some e, m) | Inr pkg_name \<Rightarrow>
      case py_get vuln ''InstalledVersion'' (JStr ''N/A'') of Inl e \<Rightarrow> (Some e, m) | Inr installed_ver \<Rightarrow>
      case py_get vuln ''FixedVersion'' (JStr ''N/A'') of Inl e \<Rightarrow> (Some e, m) | Inr fixed_ver \<Rightarrow>
        (None, m\<lparr>vulnerability_gauge := (vulnerability_gauge m)
           ([img, label repr severity, namespace, label repr vuln_id, label repr pkg_name,
             label repr installed_ver, label repr fixed_ver] \<mapsto> 1)\<rparr>))"

fun process_vulns ::
  "(json \<Rightarrow> string) \<Rightarrow> string \<Rightarrow> string \<Rightarrow> json list \<Rightarrow> registry \<Rightarrow> exn option \<times> registry" where
  "process_vulns repr img namespace [] m = (None, m)"
| "process_vulns repr img namespace (vuln # vulns) m =
     (case process_vuln repr img namespace vuln m of
        (Some e, m') \<Rightarrow> (Some e, m')
      | (None, m') \<Rightarrow> process_vulns repr img namespace vulns m')"

text \<open>
  The body of the outer loop: \<^verbatim>\<open>result.get('Vulnerabilities', [])\<close> and the loop over
  what it returns. There is no \<^verbatim>\<open>or []\<close> here, so a stored \<^verbatim>\<open>null\<close> is iterated.
\<close>

definition process_result ::
  "(json \<Rightarrow> string) \<Rightarrow> string \<Rightarrow> string \<Rightarrow> json \<Rightarrow> registry \<Rightarrow> exn option \<times> registry" where
  "process_result repr img namespace result m =
     (case py_get result ''Vulnerabilities'' (JArr []) of Inl e \<Rightarrow> (Some e, m) | Inr vulnerabilities \<Rightarrow>
      case py_iter vulnerabilities of Inl e \<Rightarrow> (Some e, m) | Inr vulns \<Rightarrow>
        process_vulns repr img namespace vulns m)"

fun process_results ::
  "(json \<Rightarrow> string) \<Rightarrow> string \<Rightarrow> string \<Rightarrow> json list \<Rightarrow> registry \<Rightarrow> exn option \<times> registry" where
  "process_results repr img namespace [] m = (None, m)"
| "process_results repr img namespace (result # results) m =
     (case process_result repr img namespace result m of
        (Some e, m') \<Rightarrow> (Some e, m')
      | (None, m') \<Rightarrow> process_results repr img namespace results m')"

text \<open>
  \<^verbatim>\<open>TrivyExporter.process_scan_results\<close>. Nothing is caught here: the first component
  is the exception that leaves the function, if any, and the registry is as the call
  left it.
\<close>

definition process_scan_results ::
  "(json \<Rightarrow> string) \<Rightarrow> string \<Rightarrow> string \<Rightarrow> json \<Rightarrow> registry \<Rightarrow> exn option \<times> registry" where
  "process_scan_results repr img namespace scan_data m =
     (if \<not> truthy scan_data then (None, m)
      else case py_contains ''Results'' scan_data of Inl e \<Rightarrow> (Some e, m) | Inr present \<Rightarrow>
        if \<not> present then (None, m)
        else case py_get scan_data ''Results'' (JArr []) of Inl e \<Rightarrow> (Some e, m) | Inr rs \<Rightarrow>
          case py_iter rs of Inl e \<Rightarrow> (Some e, m) | Inr results \<Rightarrow>
            process_results repr img namespace results m)"

text \<open>
  \<^verbatim>\<open>time.sleep(secs)\<close>: a negative argument raises \<^verbatim>\<open>ValueError\<close>, otherwise the
  call is recorded.
\<close>

definition py_sleep :: "int \<Rightarrow> registry \<Rightarrow> exn option \<times> registry" where
  "py_sleep secs m = (if secs < 0 then (Some ValueError, m) else (None, m\<lparr>slept := slept m @ [secs]\<rparr>))"

text \<open>
  A subject of a cycle is an (image, namespace) pair of the inventory together with what
  its scan attempt will do. The loop of \<^verbatim>\<open>scan_all_images\<close> over the subjects:
\<close>

type_synonym subject = "string \<times> string \<times> attempt"

fun scan_loop :: "(json \<Rightarrow> string) \<Rightarrow> subject list \<Rightarrow> registry \<Rightarrow> exn option \<times> registry" where
  "scan_loop repr [] m = (None, m)"
| "scan_loop repr ((img, namespace, a) # rest) m =
     (case scan_image img namespace a m of (scan_data, m1) \<Rightarrow>
      case (if truthy scan_data then process_scan_results repr img namespace scan_data m1
            else (None, m1)) of
        (Some e, m2) \<Rightarrow> (Some e, m2)
      | (None, m2) \<Rightarrow>
          (case py_sleep 2 m2 of
             (Some e, m3) \<Rightarrow> (Some e, m3)
           | (None, m3) \<Rightarrow> scan_loop repr rest m3))"

text \<open>
  \<^verbatim>\<open>TrivyExporter.scan_all_images\<close>; \<open>images\<close> is what
  \<^verbatim>\<open>get_images_from_cluster\<close> returned (the empty list when the inventory failed).
\<close>

definition scan_all_images :: "(json \<Rightarrow> string) \<Rightarrow> subject list \<Rightarrow> registry \<Rightarrow> exn option \<times> registry" where
  "scan_all_images repr images m = (if images = [] then (None, m) else scan_loop repr images m)"

text \<open>
  One iteration of the \<^verbatim>\<open>while True\<close> of \<^verbatim>\<open>TrivyExporter.run\<close>: the cycle and the
  sleep of \<open>interval\<close> seconds inside the \<^verbatim>\<open>try\<close>, the sleep of 60 seconds in the
  handler of \<^verbatim>\<open>Exception\<close>.
\<close>

definition run_iteration :: "(json \<Rightarrow> string) \<Rightarrow> int \<Rightarrow> subject list \<Rightarrow> registry \<Rightarrow> registry" where
  "run_iteration repr interval images m =
     (case scan_all_images repr images m of
        (Some e, m1) \<Rightarrow> snd (py_sleep 60 m1)
      | (None, m1) \<Rightarrow>
          (case py_sleep interval m1 of
             (Some e, m2) \<Rightarrow> snd (py_sleep 60 m2)
           | (None, m2) \<Rightarrow> m2))"

text \<open>
  \<^verbatim>\<open>TrivyExporter.run\<close> on the cycles the list describes: an entry is the inventory of
  one cycle, or \<open>None\<close> when the user interrupts the process there, which ends the loop.
\<close>

fun run_cycles :: "(json \<Rightarrow> string) \<Rightarrow> int \<Rightarrow> subject list option list \<Rightarrow> registry \<Rightarrow> registry" where
  "run_cycles repr interval [] m = m"
| "run_cycles repr interval (None # cycles) m = m"
| "run_cycles repr interval (Some images # cycles) m =
     run_cycles repr interval cycles (run_iteration repr interval images m)"

section \<open>The file-backed exporter (trivy-exporter.py)\<close>

subsection \<open>Report parsing\<close>

text \<open>
  A report file as \<^verbatim>\<open>parse_trivy_report\<close> meets it: \<^verbatim>\<open>open\<close> fails, or the file
  is read and \<^verbatim>\<open>json.load\<close> raises or returns a document.
\<close>

datatype report_file = Unreadable | Readable decoded

text \<open>The dict appended to \<^verbatim>\<open>vulnerabilities\<close> and the dict the parser returns.\<close>

record finding =
  finding_image :: json
  vulnerability_id :: json
  package :: json
  installed_version :: json
  fixed_version :: json
  severity :: json
  title :: json

record report =
  report_image :: json
  scan_time :: json
  vulnerabilities :: "finding list"

text \<open>Sequencing of steps that may raise: the first exception ends the computation.\<close>

definition andthen :: "exn + 'a \<Rightarrow> ('a \<Rightarrow> exn + 'b) \<Rightarrow> exn + 'b" where
  "andthen r f = (case r of Inl e \<Rightarrow> Inl e | Inr v \<Rightarrow> f v)"

definition parse_vuln :: "json \<Rightarrow> json \<Rightarrow> exn + finding" where
  "parse_vuln image_name vuln =
     andthen (py_get vuln ''VulnerabilityID'' (JStr [])) (\<lambda>vid.
     andthen (py_get vuln ''PkgName'' (JStr [])) (\<lambda>pkg.
     andthen (py_get vuln ''InstalledVersion'' (JStr [])) (\<lambda>inst.
     andthen (py_get vuln ''FixedVersion'' (JStr [])) (\<lambda>fixed.
     andthen (py_get vuln ''Severity'' (JStr ''UNKNOWN'')) (\<lambda>sev.
     andthen (py_get vuln ''Title'' (JStr [])) (\<lambda>ttl.
       Inr \<lparr>finding_image = image_name, vulnerability_id = vid, package = pkg,
            installed_version = inst, fixed_version = fixed, severity = sev,
            title = ttl\<rparr>))))))"

fun parse_vulns :: "json \<Rightarrow> json list \<Rightarrow> exn + finding list" where
  "parse_vulns image_name [] = Inr []"
| "parse_vulns image_name (vuln # vulns) =
     andthen (parse_vuln image_name vuln) (\<lambda>f.
     andthen (parse_vulns image_name vulns) (\<lambda>fs. Inr (f # fs)))"

text \<open>
  The inner loop header \<^verbatim>\<open>for vuln in result.get('Vulnerabilities', []) or []\<close>:
  a stored value that is false (\<^verbatim>\<open>null\<close> among them) is replaced by the empty list.
\<close>

definition parse_result :: "json \<Rightarrow> json \<Rightarrow> exn + finding list" where
  "parse_result image_name result =
     andthen (py_get result ''Vulnerabilities'' (JArr [])) (\<lambda>v.
     andthen (py_iter (if truthy v then v else JArr [])) (\<lambda>vulns.
       parse_vulns image_name vulns))"

fun parse_results :: "json \<Rightarrow> json list \<Rightarrow> exn + finding list" where
  "parse_results image_name [] = Inr []"
| "parse_results image_name (result # results) =
     andthen (parse_result image_name result) (\<lambda>fs.
     andthen (parse_results image_name results) (\<lambda>gs. Inr (fs @ gs)))"

definition parse_document :: "json \<Rightarrow> exn + report" where
  "parse_document data =
     andthen (py_get data ''ArtifactName'' (JStr ''unknown'')) (\<lambda>image_name.
     andthen (py_get data ''CreatedAt'' (JStr [])) (\<lambda>created.
     andthen (py_get data ''Results'' (JArr [])) (\<lambda>rs.
     andthen (py_iter rs) (\<lambda>results.
     andthen (parse_results image_name results) (\<lambda>vs.
       Inr \<lparr>report_image = image_name, scan_time = created, vulnerabilities = vs\<rparr>)))))"

text \<open>The body of the \<^verbatim>\<open>try\<close> of \<^verbatim>\<open>parse_trivy_report\<close>, with what it raises.\<close>

definition parse_body :: "report_file \<Rightarrow> exn + report" where
  "parse_body f =
     (case f of
        Unreadable \<Rightarrow> Inl OSError
      | Readable Undecodable \<Rightarrow> Inl JSONDecodeError
      | Readable (Document data) \<Rightarrow> parse_document data)"

text \<open>
  \<^verbatim>\<open>parse_trivy_report\<close>: \<^verbatim>\<open>except Exception\<close> logs whatever the body raised and
  returns \<^verbatim>\<open>None\<close>.
\<close>

definition parse_trivy_report :: "report_file \<Rightarrow> report option" where
  "parse_trivy_report f = (case parse_body f of Inl e \<Rightarrow> None | Inr r \<Rightarrow> Some r)"

subsection \<open>The metrics and the calls that change them\<close>

text \<open>
  The module-level metrics of the two file-backed exporters. Both declare the gauges
  \<^verbatim>\<open>trivy_image_vulnerabilities\<close>, \<^verbatim>\<open>trivy_last_scan_timestamp\<close> and
  \<^verbatim>\<open>trivy_images_scanned\<close>; the detail family is the gauge
  \<^verbatim>\<open>trivy_vulnerability_info\<close> in trivy-exporter.py and the info metric
  \<^verbatim>\<open>trivy_vulnerability_id\<close> in dashboard/trivy_exporter.py, and each program
  touches only its own. A labelled metric is the list of its samples, label values with
  the value last set, in the order the label sets were first used; the value of an info
  sample is the triple (installed_version, fixed_version, title).
\<close>

record exporter =
  trivy_image_vulnerabilities :: "((string \<times> string \<times> string) \<times> nat) list"
  trivy_last_scan_timestamp :: "(string \<times> real) list"
  trivy_vulnerability_info :: "(string list \<times> nat) list"
  trivy_vulnerability_id :: "(string list \<times> json \<times> json \<times> json) list"
  trivy_images_scanned :: nat

definition exporter0 :: exporter where
  "exporter0 = \<lparr>trivy_image_vulnerabilities = [], trivy_last_scan_timestamp = [],
     trivy_vulnerability_info = [], trivy_vulnerability_id = [], trivy_images_scanned = 0\<rparr>"

text \<open>
  \<^verbatim>\<open>update_metrics\<close> never reads a metric; it only calls \<^verbatim>\<open>.clear()\<close>,
  \<^verbatim>\<open>.set(v)\<close>, \<^verbatim>\<open>.labels(...).set(v)\<close> and \<^verbatim>\<open>.labels(...).info(v)\<close>. A call is
  one of these, and
  \<open>perform\<close> is its effect on the metrics.
\<close>

datatype call =
    Clear_image_vulnerabilities
  | Clear_vulnerability_info
  | Set_images_scanned nat
  | Set_last_scan_timestamp string real
  | Set_vulnerability_info "string list"
  | Set_vulnerability_id "string list" "json \<times> json \<times> json"
  | Set_image_vulnerabilities "string \<times> string \<times> string" nat

fun perform :: "call \<Rightarrow> exporter \<Rightarrow> exporter" where
  "perform Clear_image_vulnerabilities m = m\<lparr>trivy_image_vulnerabilities := []\<rparr>"
| "perform Clear_vulnerability_info m = m\<lparr>trivy_vulnerability_info := []\<rparr>"
| "perform (Set_images_scanned n) m = m\<lparr>trivy_images_scanned := n\<rparr>"
| "perform (Set_last_scan_timestamp img t) m =
     m\<lparr>trivy_last_scan_timestamp := AList.update img t (trivy_last_scan_timestamp m)\<rparr>"
| "perform (Set_vulnerability_info labels) m =
     m\<lparr>trivy_vulnerability_info := AList.update labels 1 (trivy_vulnerability_info m)\<rparr>"
| "perform (Set_vulnerability_id labels v) m =
     m\<lparr>trivy_vulnerability_id := AList.update labels v (trivy_vulnerability_id m)\<rparr>"
| "perform (Set_image_vulnerabilities labels n) m =
     m\<lparr>trivy_image_vulnerabilities := AList.update labels n (trivy_image_vulnerabilities m)\<rparr>"

text \<open>The metrics after a sequence of calls, and every state the metrics pass through.\<close>

definition perform_all :: "call list \<Rightarrow> exporter \<Rightarrow> exporter" where
  "perform_all cs m = fold perform cs m"

fun exposed :: "call list \<Rightarrow> exporter \<Rightarrow> exporter list" where
  "exposed [] m = [m]"
| "exposed (c # cs) m = m # exposed cs (perform c m)"

subsection \<open>One report\<close>

text \<open>
  \<^verbatim>\<open>report_data['scan_time'].replace('Z', '+00:00')\<close>, and the timestamp block: it
  runs when \<^verbatim>\<open>scan_time\<close> is true, and anything it raises (\<^verbatim>\<open>.replace\<close> on a value
  that is not a string, a text that \<^verbatim>\<open>datetime.fromisoformat\<close> rejects) is caught and
  logged. \<open>fromiso\<close> stands for \<^verbatim>\<open>datetime.fromisoformat(s).timestamp()\<close>, \<open>None\<close>
  when that raises.
\<close>

definition replace_Z :: "string \<Rightarrow> string" where
  "replace_Z s = concat (map (\<lambda>c. if c = CHR ''Z'' then ''+00:00'' else [c]) s)"

definition timestamp_calls ::
  "(json \<Rightarrow> string) \<Rightarrow> (string \<Rightarrow> real option) \<Rightarrow> report \<Rightarrow> call list" where
  "timestamp_calls repr fromiso r =
     (if truthy (scan_time r) then
        (case scan_time r of
           JStr s \<Rightarrow>
             (case fromiso (replace_Z s) of
                None \<Rightarrow> []
              | Some t \<Rightarrow> [Set_last_scan_timestamp (label repr (report_image r)) t])
         | _ \<Rightarrow> [])
      else [])"

text \<open>
  \<^verbatim>\<open>vuln_counts\<close> is a dict keyed by the tuple (image, severity, package). A key
  holding a list or a dict cannot be hashed; two keys are the same entry when their
  components are equal in Python's sense. \<open>bump\<close> is
  \<^verbatim>\<open>vuln_counts[key] = vuln_counts.get(key, 0) + 1\<close> on a hashable key.
\<close>

fun hashable :: "json \<Rightarrow> bool" where
  "hashable (JArr xs) = False"
| "hashable (JObj kvs) = False"
| "hashable v = True"

type_synonym key = "json \<times> json \<times> json"

fun key_eq :: "key \<Rightarrow> key \<Rightarrow> bool" where
  "key_eq (a, b, c) (a', b', c') = (py_eq a a' \<and> py_eq b b' \<and> py_eq c c')"

fun bump :: "key \<Rightarrow> (key \<times> nat) list \<Rightarrow> (key \<times> nat) list" where
  "bump k [] = [(k, 1)]"
| "bump k ((k', n) # counts) =
     (if key_eq k k' then (k', n + 1) # counts else (k', n) # bump k counts)"

text \<open>
  \<^verbatim>\<open>vuln['fixed_version'][:64] if vuln['fixed_version'] else ''\<close>, as a label value:
  a string or a list can be sliced, a number, \<^verbatim>\<open>True\<close> or a dict cannot.
\<close>

fun fixed_version_label :: "(json \<Rightarrow> string) \<Rightarrow> json \<Rightarrow> exn + string" where
  "fixed_version_label repr (JStr s) = Inr (take 64 s)"
| "fixed_version_label repr (JArr xs) = Inr (if xs = [] then [] else repr (JArr (take 64 xs)))"
| "fixed_version_label repr v = (if truthy v then Inl TypeError else Inr [])"

text \<open>
  The \<^verbatim>\<open>try\<close> block that sets \<^verbatim>\<open>trivy_vulnerability_info\<close> for one finding; what it
  raises is caught and logged, and then no sample is set.
\<close>

definition info_calls :: "(json \<Rightarrow> string) \<Rightarrow> json \<Rightarrow> finding \<Rightarrow> call list" where
  "info_calls repr img vuln =
     (case fixed_version_label repr (fixed_version vuln) of
        Inl e \<Rightarrow> []
      | Inr fixed \<Rightarrow>
          [Set_vulnerability_info
             [label repr (vulnerability_id vuln), label repr img, label repr (package vuln),
              label repr (severity vuln), label repr (installed_version vuln), fixed]])"

text \<open>
  The loop over \<^verbatim>\<open>report_data['vulnerabilities']\<close>: the calls made, and the dict
  \<^verbatim>\<open>vuln_counts\<close> at the end or the \<^verbatim>\<open>TypeError\<close> of an unhashable key, which no
  handler of \<^verbatim>\<open>update_metrics\<close> catches.
\<close>

fun count_loop ::
  "(json \<Rightarrow> string) \<Rightarrow> json \<Rightarrow> finding list \<Rightarrow> (key \<times> nat) list
     \<Rightarrow> call list \<times> (exn + (key \<times> nat) list)" where
  "count_loop repr img [] vuln_counts = ([], Inr vuln_counts)"
| "count_loop repr img (vuln # vulns) vuln_counts =
     (if hashable img \<and> hashable (severity vuln) \<and> hashable (package vuln) then
        (case count_loop repr img vulns (bump (img, severity vuln, package vuln) vuln_counts) of
           (cs, r) \<Rightarrow> (info_calls repr img vuln @ cs, r))
      else ([], Inl TypeError))"

text \<open>The final loop over \<^verbatim>\<open>vuln_counts.items()\<close>.\<close>

definition count_calls :: "(json \<Rightarrow> string) \<Rightarrow> (key \<times> nat) list \<Rightarrow> call list" where
  "count_calls repr vuln_counts =
     map (\<lambda>((img, sev, pkg), n).
            Set_image_vulnerabilities (label repr img, label repr sev, label repr pkg) n)
         vuln_counts"

text \<open>The body of the loop over the report files for one parsed report.\<close>

definition report_calls ::
  "(json \<Rightarrow> string) \<Rightarrow> (string \<Rightarrow> real option) \<Rightarrow> report \<Rightarrow> call list \<times> exn option" where
  "report_calls repr fromiso r =
     (case count_loop repr (report_image r) (vulnerabilities r) [] of
        (cs, Inl e) \<Rightarrow> (timestamp_calls repr fromiso r @ cs, Some e)
      | (cs, Inr vuln_counts) \<Rightarrow>
          (timestamp_calls repr fromiso r @ cs @ count_calls repr vuln_counts, None))"

subsection \<open>One cycle\<close>

text \<open>
  The loop over \<^verbatim>\<open>report_files\<close> with the counter \<^verbatim>\<open>images_scanned\<close>, and the
  final \<^verbatim>\<open>trivy_images_scanned.set(images_scanned)\<close>. A file that does not parse is
  skipped by \<^verbatim>\<open>continue\<close>.
\<close>

fun files_loop ::
  "(json \<Rightarrow> string) \<Rightarrow> (string \<Rightarrow> real option) \<Rightarrow> report_file list \<Rightarrow> nat \<Rightarrow> call list \<times> exn option" where
  "files_loop repr fromiso [] images_scanned = ([Set_images_scanned images_scanned], None)"
| "files_loop repr fromiso (f # fs) images_scanned =
     (case parse_trivy_report f of
        None \<Rightarrow> files_loop repr fromiso fs images_scanned
      | Some r \<Rightarrow>
          (case report_calls repr fromiso r of
             (cs, Some e) \<Rightarrow> (cs, Some e)
           | (cs, None) \<Rightarrow>
               (case files_loop repr fromiso fs (images_scanned + 1) of
                  (cs', e) \<Rightarrow> (cs @ cs', e))))"

text \<open>
  The reports directory as \<^verbatim>\<open>update_metrics\<close> finds it: it does not exist, it is not a
  directory, \<^verbatim>\<open>glob\<close> raises \<^verbatim>\<open>PermissionError\<close> or another exception, or
  \<^verbatim>\<open>glob('*.json')\<close> lists the given files.
\<close>

datatype directory =
    Missing
  | NotADirectory
  | GlobPermissionError
  | GlobException
  | Files "report_file list"

text \<open>
  \<^verbatim>\<open>update_metrics\<close> of trivy-exporter.py: the calls it makes on the metrics, in order,
  and the exception that leaves it, if any.
\<close>

definition update_metrics_calls ::
  "(json \<Rightarrow> string) \<Rightarrow> (string \<Rightarrow> real option) \<Rightarrow> directory \<Rightarrow> call list \<times> exn option" where
  "update_metrics_calls repr fromiso d =
     (case (case d of
              Missing \<Rightarrow> ([Set_images_scanned 0], None)
            | NotADirectory \<Rightarrow> ([Set_images_scanned 0], None)
            | GlobPermissionError \<Rightarrow> ([Set_images_scanned 0], None)
            | GlobException \<Rightarrow> ([Set_images_scanned 0], None)
            | Files report_files \<Rightarrow>
                if report_files = [] then ([Set_images_scanned 0], None)
                else files_loop repr fromiso report_files 0) of
        (cs, e) \<Rightarrow> (Clear_image_vulnerabilities # Clear_vulnerability_info # cs, e))"

definition update_metrics ::
  "(json \<Rightarrow> string) \<Rightarrow> (string \<Rightarrow> real option) \<Rightarrow> directory \<Rightarrow> exporter \<Rightarrow> exn option \<times> exporter" where
  "update_metrics repr fromiso d m =
     (case update_metrics_calls repr fromiso d of (cs, e) \<Rightarrow> (e, perform_all cs m))"

subsection \<open>The HTTP handler and the main loop\<close>

text \<open>
  The process state: the metrics, the event \<^verbatim>\<open>_ready\<close>, and the arguments of the
  calls of \<^verbatim>\<open>time.sleep\<close> made by \<^verbatim>\<open>main\<close>, oldest first.
\<close>

record server =
  metrics :: exporter
  ready :: bool
  sleeps :: "int list"

definition server0 :: server where
  "server0 = \<lparr>metrics = exporter0, ready = False, sleeps = []\<rparr>"

text \<open>
  \<^verbatim>\<open>MetricsAndHealthHandler.do_GET\<close>: the status code and the body; the body of
  \<^verbatim>\<open>/metrics\<close> is the rendering of the metrics as they are at that moment.
\<close>

datatype body = Plain string | Latest exporter

definition do_GET :: "string \<Rightarrow> server \<Rightarrow> nat \<times> body" where
  "do_GET path s =
     (if path = ''/-/healthy'' then (200, Plain (''OK'' @ [CHR 0x0A]))
      else if path = ''/-/ready'' then
        (if ready s then (200, Plain (''Ready'' @ [CHR 0x0A]))
         else (503, Plain (''Not ready yet'' @ [CHR 0x0A])))
      else if path \<in> {''/metrics'', ''/metrics/''} then (200, Latest (metrics s))
      else (404, Plain (''Not found'' @ [CHR 0x0A])))"

text \<open>
  One iteration of the \<^verbatim>\<open>while True\<close> of \<^verbatim>\<open>main\<close>: \<^verbatim>\<open>_ready.set()\<close> runs when
  \<^verbatim>\<open>update_metrics\<close> returned; the sleep follows the \<^verbatim>\<open>try\<close> statement, and a
  \<^verbatim>\<open>ValueError\<close> of \<^verbatim>\<open>time.sleep\<close> (negative interval) ends the process.
\<close>

definition main_iteration ::
  "(json \<Rightarrow> string) \<Rightarrow> (string \<Rightarrow> real option) \<Rightarrow> int \<Rightarrow> directory \<Rightarrow> server \<Rightarrow> exn option \<times> server" where
  "main_iteration repr fromiso interval d s =
     (case update_metrics repr fromiso d (metrics s) of
        (e, m) \<Rightarrow>
          (let s1 = s\<lparr>metrics := m, ready := (if e = None then True else ready s)\<rparr>
           in if interval < 0 then (Some ValueError, s1)
              else (None, s1\<lparr>sleeps := sleeps s1 @ [interval]\<rparr>)))"

text \<open>\<^verbatim>\<open>main\<close> over the cycles whose directory states the list gives.\<close>

fun main_cycles ::
  "(json \<Rightarrow> string) \<Rightarrow> (string \<Rightarrow> real option) \<Rightarrow> int \<Rightarrow> directory list \<Rightarrow> server \<Rightarrow> exn option \<times> server" where
  "main_cycles repr fromiso interval [] s = (None, s)"
| "main_cycles repr fromiso interval (d # ds) s =
     (case main_iteration repr fromiso interval d s of
        (Some e, s') \<Rightarrow> (Some e, s')
      | (None, s') \<Rightarrow> main_cycles repr fromiso interval ds s')"

section \<open>The dashboard exporter (dashboard/trivy_exporter.py)\<close>

text \<open>
  Its parser reads \<^verbatim>\<open>Target\<close> as well and iterates
  \<^verbatim>\<open>result.get('Vulnerabilities', [])\<close> as it is, without \<^verbatim>\<open>or []\<close>.
\<close>

record dashboard_finding = finding +
  target :: json

record dashboard_report =
  dashboard_image :: json
  dashboard_scan_time :: json
  dashboard_vulnerabilities :: "dashboard_finding list"

definition dashboard_parse_vuln :: "json \<Rightarrow> json \<Rightarrow> json \<Rightarrow> exn + dashboard_finding" where
  "dashboard_parse_vuln image_name tgt vuln =
     andthen (py_get vuln ''VulnerabilityID'' (JStr [])) (\<lambda>vid.
     andthen (py_get vuln ''PkgName'' (JStr [])) (\<lambda>pkg.
     andthen (py_get vuln ''InstalledVersion'' (JStr [])) (\<lambda>inst.
     andthen (py_get vuln ''FixedVersion'' (JStr [])) (\<lambda>fixed.
     andthen (py_get vuln ''Severity'' (JStr ''UNKNOWN'')) (\<lambda>sev.
     andthen (py_get vuln ''Title'' (JStr [])) (\<lambda>ttl.
       Inr \<lparr>finding_image = image_name, vulnerability_id = vid, package = pkg,
            installed_version = inst, fixed_version = fixed, severity = sev,
            title = ttl, target = tgt\<rparr>))))))"

fun dashboard_parse_vulns :: "json \<Rightarrow> json \<Rightarrow> json list \<Rightarrow> exn + dashboard_finding list" where
  "dashboard_parse_vulns image_name tgt [] = Inr []"
| "dashboard_parse_vulns image_name tgt (vuln # vulns) =
     andthen (dashboard_parse_vuln image_name tgt vuln) (\<lambda>f.
     andthen (dashboard_parse_vulns image_name tgt vulns) (\<lambda>fs. Inr (f # fs)))"

definition dashboard_parse_result :: "json \<Rightarrow> json \<Rightarrow> exn + dashboard_finding list" where
  "dashboard_parse_result image_name result =
     andthen (py_get result ''Target'' (JStr [])) (\<lambda>tgt.
     andthen (py_get result ''Vulnerabilities'' (JArr [])) (\<lambda>v.
     andthen (py_iter v) (\<lambda>vulns.
       dashboard_parse_vulns image_name tgt vulns)))"

fun dashboard_parse_results :: "json \<Rightarrow> json list \<Rightarrow> exn + dashboard_finding list" where
  "dashboard_parse_results image_name [] = Inr []"
| "dashboard_parse_results image_name (result # results) =
     andthen (dashboard_parse_result image_name result) (\<lambda>fs.
     andthen (dashboard_parse_results image_name results) (\<lambda>gs. Inr (fs @ gs)))"

definition dashboard_parse_document :: "json \<Rightarrow> exn + dashboard_report" where
  "dashboard_parse_document data =
     andthen (py_get data ''ArtifactName'' (JStr ''unknown'')) (\<lambda>image_name.
     andthen (py_get data ''CreatedAt'' (JStr [])) (\<lambda>created.
     andthen (py_get data ''Results'' (JArr [])) (\<lambda>rs.
     andthen (py_iter rs) (\<lambda>results.
     andthen (dashboard_parse_results image_name results) (\<lambda>vs.
       Inr \<lparr>dashboard_image = image_name, dashboard_scan_time = created,
            dashboard_vulnerabilities = vs\<rparr>)))))"

definition dashboard_parse_trivy_report :: "report_file \<Rightarrow> dashboard_report option" where
  "dashboard_parse_trivy_report f =
     (case (case f of
              Unreadable \<Rightarrow> Inl OSError
            | Readable Undecodable \<Rightarrow> Inl JSONDecodeError
            | Readable (Document data) \<Rightarrow> dashboard_parse_document data) of
        Inl e \<Rightarrow> None
      | Inr r \<Rightarrow> Some r)"

text \<open>
  \<^verbatim>\<open>vuln['title'][:100]\<close>, and the \<^verbatim>\<open>try\<close> block that sets the info sample of one
  finding; what it raises is caught and logged.
\<close>

fun title_100 :: "json \<Rightarrow> exn + json" where
  "title_100 (JStr s) = Inr (JStr (take 100 s))"
| "title_100 (JArr xs) = Inr (JArr (take 100 xs))"
| "title_100 v = Inl TypeError"

definition dashboard_info_calls :: "(json \<Rightarrow> string) \<Rightarrow> json \<Rightarrow> dashboard_finding \<Rightarrow> call list" where
  "dashboard_info_calls repr img vuln =
     (case title_100 (title vuln) of
        Inl e \<Rightarrow> []
      | Inr ttl \<Rightarrow>
          [Set_vulnerability_id
             [label repr (vulnerability_id vuln), label repr img, label repr (package vuln),
              label repr (severity vuln)]
             (installed_version vuln, fixed_version vuln, ttl)])"

fun dashboard_count_loop ::
  "(json \<Rightarrow> string) \<Rightarrow> json \<Rightarrow> dashboard_finding list \<Rightarrow> (key \<times> nat) list
     \<Rightarrow> call list \<times> (exn + (key \<times> nat) list)" where
  "dashboard_count_loop repr img [] vuln_counts = ([], Inr vuln_counts)"
| "dashboard_count_loop repr img (vuln # vulns) vuln_counts =
     (if hashable img \<and> hashable (severity vuln) \<and> hashable (package vuln) then
        (case dashboard_count_loop repr img vulns
                (bump (img, severity vuln, package vuln) vuln_counts) of
           (cs, r) \<Rightarrow> (dashboard_info_calls repr img vuln @ cs, r))
      else ([], Inl TypeError))"

definition dashboard_report_calls ::
  "(json \<Rightarrow> string) \<Rightarrow> (string \<Rightarrow> real option) \<Rightarrow> dashboard_report \<Rightarrow> call list \<times> exn option" where
  "dashboard_report_calls repr fromiso r =
     (let ts = timestamp_calls repr fromiso
                 \<lparr>report_image = dashboard_image r, scan_time = dashboard_scan_time r,
                  vulnerabilities = []\<rparr>
      in case dashboard_count_loop repr (dashboard_image r) (dashboard_vulnerabilities r) [] of
           (cs, Inl e) \<Rightarrow> (ts @ cs, Some e)
         | (cs, Inr vuln_counts) \<Rightarrow> (ts @ cs @ count_calls repr vuln_counts, None))"

fun dashboard_files_loop ::
  "(json \<Rightarrow> string) \<Rightarrow> (string \<Rightarrow> real option) \<Rightarrow> report_file list \<Rightarrow> nat \<Rightarrow> call list \<times> exn option" where
  "dashboard_files_loop repr fromiso [] images_scanned = ([Set_images_scanned images_scanned], None)"
| "dashboard_files_loop repr fromiso (f # fs) images_scanned =
     (case dashboard_parse_trivy_report f of
        None \<Rightarrow> dashboard_files_loop repr fromiso fs images_scanned
      | Some r \<Rightarrow>
          (case dashboard_report_calls repr fromiso r of
             (cs, Some e) \<Rightarrow> (cs, Some e)
           | (cs, None) \<Rightarrow>
               (case dashboard_files_loop repr fromiso fs (images_scanned + 1) of
                  (cs', e) \<Rightarrow> (cs @ cs', e))))"

text \<open>
  \<^verbatim>\<open>update_metrics\<close> of the dashboard exporter. It returns at once when the directory
  does not exist; otherwise it clears the count family only and lists the directory
  outside any \<^verbatim>\<open>try\<close>. A path that exists and is not a directory lists as empty. On
  the early returns \<^verbatim>\<open>trivy_images_scanned\<close> is not set.
\<close>

definition dashboard_update_metrics_calls ::
  "(json \<Rightarrow> string) \<Rightarrow> (string \<Rightarrow> real option) \<Rightarrow> directory \<Rightarrow> call list \<times> exn option" where
  "dashboard_update_metrics_calls repr fromiso d =
     (case d of
        Missing \<Rightarrow> ([], None)
      | NotADirectory \<Rightarrow> ([Clear_image_vulnerabilities], None)
      | GlobPermissionError \<Rightarrow> ([Clear_image_vulnerabilities], Some PermissionError)
      | GlobException \<Rightarrow> ([Clear_image_vulnerabilities], Some OtherError)
      | Files report_files \<Rightarrow>
          if report_files = [] then ([Clear_image_vulnerabilities], None)
          else (case dashboard_files_loop repr fromiso report_files 0 of
                  (cs, e) \<Rightarrow> (Clear_image_vulnerabilities # cs, e)))"

definition dashboard_update_metrics ::
  "(json \<Rightarrow> string) \<Rightarrow> (string \<Rightarrow> real option) \<Rightarrow> directory \<Rightarrow> exporter \<Rightarrow> exn option \<times> exporter" where
  "dashboard_update_metrics repr fromiso d m =
     (case dashboard_update_metrics_calls repr fromiso d of (cs, e) \<Rightarrow> (e, perform_all cs m))"

section \<open>Predicates and inputs used in the statements\<close>

text \<open>
  A scan attempt succeeds when the subprocess exits with code zero and its output
  decodes; it fails when the subprocess exits with another code, times out, cannot be run
  or prints what does not decode. Two registries \<open>agree\<close> up to a subject when they
  hold the same vulnerability gauge, the same last-scan timestamps and the same error
  gauge for every other subject.
\<close>

definition scan_succeeds :: "attempt \<Rightarrow> bool" where
  "scan_succeeds a = (case run a of Completed rc (Document d) \<Rightarrow> rc = 0 | _ \<Rightarrow> False)"

definition scan_fails :: "attempt \<Rightarrow> bool" where
  "scan_fails a = (case run a of
       Completed rc out \<Rightarrow> rc \<noteq> 0 \<or> out = Undecodable
     | TimeoutExpired \<Rightarrow> True
     | OtherException \<Rightarrow> True)"

definition agree :: "string \<times> string \<Rightarrow> registry \<Rightarrow> registry \<Rightarrow> bool" where
  "agree k m m' = (vulnerability_gauge m = vulnerability_gauge m'
     \<and> last_scan_timestamp m = last_scan_timestamp m'
     \<and> (\<forall>k'. k' \<noteq> k \<longrightarrow> scan_errors m k' = scan_errors m' k'))"

text \<open>
  Concrete inputs: a rendering of the values that are not strings, a clock-text parser,
  scan attempts and report documents.
\<close>

definition plain_repr :: "json \<Rightarrow> string" where
  "plain_repr v = ''?''"

definition no_clock :: "string \<Rightarrow> real option" where
  "no_clock s = None"

definition libfoo_vuln :: "string \<Rightarrow> json" where
  "libfoo_vuln vid = JObj [(''VulnerabilityID'', JStr vid), (''PkgName'', JStr ''libfoo''),
     (''Severity'', JStr ''HIGH'')]"

definition libfoo_document :: "string \<Rightarrow> json" where
  "libfoo_document name = JObj [(''ArtifactName'', JStr name),
     (''Results'', JArr [JObj [(''Vulnerabilities'', JArr [libfoo_vuln ''CVE-1'', libfoo_vuln ''CVE-2''])]])]"

definition null_document :: json where
  "null_document = JObj [(''Results'', JArr [JObj [(''Vulnerabilities'', JNull)]])]"

definition timed_out :: attempt where
  "timed_out = \<lparr>start_time = 0, run = TimeoutExpired, end_time = 300, stamp_time = 300\<rparr>"

definition scanned :: "json \<Rightarrow> attempt" where
  "scanned d = \<lparr>start_time = 0, run = Completed 0 (Document d), end_time = 4, stamp_time = 5\<rparr>"

text \<open>
  The value \<^verbatim>\<open>.get(key, default)\<close> returns on a dict with the given members.
\<close>

definition stored :: "(string \<times> json) list \<Rightarrow> string \<Rightarrow> json \<Rightarrow> json" where
  "stored kvs key dflt = (case map_of (rev kvs) key of None \<Rightarrow> dflt | Some v \<Rightarrow> v)"

definition unhashable_document :: json where
  "unhashable_document = JObj [(''ArtifactName'', JStr ''app:1.0''),
     (''Results'', JArr [JObj [(''Vulnerabilities'', JArr [JObj [(''Severity'', JArr [])]])]])]"

text \<open>
  For the sum of the count family: the reports that parse, the number of their findings,
  the sum of the samples of \<^verbatim>\<open>trivy_image_vulnerabilities\<close>, and reports whose
  image name, severities and package names are strings. \<open>family_step\<close> is the effect
  of a call on the count family alone.
\<close>

fun is_text :: "json \<Rightarrow> bool" where
  "is_text (JStr s) = True"
| "is_text v = False"

definition text_keys :: "report \<Rightarrow> bool" where
  "text_keys r = (is_text (report_image r)
     \<and> list_all (\<lambda>v. is_text (severity v) \<and> is_text (package v)) (vulnerabilities r))"

definition parsed :: "report_file list \<Rightarrow> report list" where
  "parsed fs = List.map_filter parse_trivy_report fs"

definition findings_total :: "report_file list \<Rightarrow> nat" where
  "findings_total fs = sum_list (map (\<lambda>r. length (vulnerabilities r)) (parsed fs))"

definition family_total :: "exporter \<Rightarrow> nat" where
  "family_total m = sum_list (map snd (trivy_image_vulnerabilities m))"

fun family_step ::
  "call \<Rightarrow> ((string \<times> string \<times> string) \<times> nat) list \<Rightarrow> ((string \<times> string \<times> string) \<times> nat) list" where
  "family_step Clear_image_vulnerabilities g = []"
| "family_step (Set_image_vulnerabilities k n) g = AList.update k n g"
| "family_step c g = g"

definition key_labels :: "(json \<Rightarrow> string) \<Rightarrow> key \<Rightarrow> string \<times> string \<times> string" where
  "key_labels repr k = (case k of (img, sev, pkg) \<Rightarrow> (label repr img, label repr sev, label repr pkg))"

fun text_key :: "key \<Rightarrow> bool" where
  "text_key (a, b, c) = (is_text a \<and> is_text b \<and> is_text c)"

definition good_counts :: "json \<Rightarrow> (key \<times> nat) list \<Rightarrow> bool" where
  "good_counts img c = (distinct (map fst c) \<and> (\<forall>k \<in> fst ` set c. text_key k \<and> fst k = img))"

definition family_images :: "((string \<times> string \<times> string) \<times> nat) list \<Rightarrow> string set" where
  "family_images g = (\<lambda>x. fst (fst x)) ` set g"

definition dashboard_text_keys :: "dashboard_report \<Rightarrow> bool" where
  "dashboard_text_keys r = (is_text (dashboard_image r)
     \<and> list_all (\<lambda>v. is_text (severity v) \<and> is_text (package v)) (dashboard_vulnerabilities r))"

definition dashboard_parsed :: "report_file list \<Rightarrow> dashboard_report list" where
  "dashboard_parsed fs = List.map_filter dashboard_parse_trivy_report fs"

definition dashboard_findings_total :: "report_file list \<Rightarrow> nat" where
  "dashboard_findings_total fs =
     sum_list (map (\<lambda>r. length (dashboard_vulnerabilities r)) (dashboard_parsed fs))"

text \<open>
  For what a scrape can see: the label sets of the count and detail families, their
  inclusion, the calls that clear a family, and a cycle over a new report that starts
  from the metrics an earlier cycle left.
\<close>

definition count_labels :: "exporter \<Rightarrow> (string \<times> string \<times> string) set" where
  "count_labels m = fst ` set (trivy_image_vulnerabilities m)"

definition info_labels :: "exporter \<Rightarrow> string list set" where
  "info_labels m = fst ` set (trivy_vulnerability_info m)"

definition labels_within :: "exporter \<Rightarrow> exporter \<Rightarrow> bool" where
  "labels_within a b = (count_labels a \<subseteq> count_labels b \<and> info_labels a \<subseteq> info_labels b)"

fun is_clear :: "call \<Rightarrow> bool" where
  "is_clear Clear_image_vulnerabilities = True"
| "is_clear Clear_vulnerability_info = True"
| "is_clear c = False"

definition old_metrics :: exporter where
  "old_metrics = snd (update_metrics plain_repr no_clock
     (Files [Readable (Document (libfoo_document ''old:1''))]) exporter0)"

definition new_directory :: directory where
  "new_directory = Files [Readable (Document (libfoo_document ''new:2''))]"

definition exposed_during_new_cycle :: "exporter list" where
  "exposed_during_new_cycle =
     exposed (fst (update_metrics_calls plain_repr no_clock new_directory)) old_metrics"

section \<open>The inventory-backed exporter: scans and their errors\<close>

lemma scan_all_images_loop: "scan_all_images repr images m = scan_loop repr images m"
  by (simp add: scan_all_images_def)

lemma scan_loop_append:
  "scan_loop repr (xs @ ys) m =
     (case scan_loop repr xs m of (Some e, m') \<Rightarrow> (Some e, m') | (None, m') \<Rightarrow> scan_loop repr ys m')"
  by (induction xs arbitrary: m) (auto simp: py_sleep_def split: prod.splits option.splits)

lemma scan_image_fails:
  "scan_fails a \<Longrightarrow> fst (scan_image img ns a m) = JNull
     \<and> scan_errors (snd (scan_image img ns a m)) (img, ns) = Some 1
     \<and> agree (img, ns) (snd (scan_image img ns a m)) m"
  by (auto simp: scan_fails_def scan_image_def set_error_def observe_def Let_def agree_def
           split: proc.splits decoded.splits)

lemma scan_image_agree:
  "agree k m m' \<Longrightarrow> fst (scan_image img ns a m) = fst (scan_image img ns a m')
     \<and> agree k (snd (scan_image img ns a m)) (snd (scan_image img ns a m'))"
  by (auto simp: scan_image_def set_error_def observe_def Let_def agree_def
           split: proc.splits decoded.splits)

lemma process_vuln_agree:
  "agree k m m' \<Longrightarrow> fst (process_vuln repr img ns v m) = fst (process_vuln repr img ns v m')
     \<and> agree k (snd (process_vuln repr img ns v m)) (snd (process_vuln repr img ns v m'))"
  by (auto simp: process_vuln_def agree_def split: sum.splits)

lemma process_vulns_agree:
  "agree k m m' \<Longrightarrow> fst (process_vulns repr img ns vs m) = fst (process_vulns repr img ns vs m')
     \<and> agree k (snd (process_vulns repr img ns vs m)) (snd (process_vulns repr img ns vs m'))"
proof (induction vs arbitrary: m m')
  case Nil
  then show ?case by simp
next
  case (Cons v vs)
  from process_vuln_agree [OF Cons.prems, of repr img ns v]
  obtain e n n' where a: "process_vuln repr img ns v m = (e, n)"
    and b: "process_vuln repr img ns v m' = (e, n')" and c: "agree k n n'"
    by (metis prod.collapse)
  show ?case
  proof (cases e)
    case None
    with a b Cons.IH [OF c] show ?thesis by simp
  next
    case (Some x)
    with a b c show ?thesis by simp
  qed
qed

lemma process_result_agree:
  "agree k m m' \<Longrightarrow> fst (process_result repr img ns r m) = fst (process_result repr img ns r m')
     \<and> agree k (snd (process_result repr img ns r m)) (snd (process_result repr img ns r m'))"
  using process_vulns_agree [of k m m' repr img ns]
  by (auto simp: process_result_def split: sum.splits)

lemma process_results_agree:
  "agree k m m' \<Longrightarrow> fst (process_results repr img ns rs m) = fst (process_results repr img ns rs m')
     \<and> agree k (snd (process_results repr img ns rs m)) (snd (process_results repr img ns rs m'))"
proof (induction rs arbitrary: m m')
  case Nil
  then show ?case by simp
next
  case (Cons r rs)
  from process_result_agree [OF Cons.prems, of repr img ns r]
  obtain e n n' where a: "process_result repr img ns r m = (e, n)"
    and b: "process_result repr img ns r m' = (e, n')" and c: "agree k n n'"
    by (metis prod.collapse)
  show ?case
  proof (cases e)
    case None
    with a b Cons.IH [OF c] show ?thesis by simp
  next
    case (Some x)
    with a b c show ?thesis by simp
  qed
qed

lemma process_scan_results_agree:
  "agree k m m' \<Longrightarrow>
     fst (process_scan_results repr img ns d m) = fst (process_scan_results repr img ns d m')
     \<and> agree k (snd (process_scan_results repr img ns d m)) (snd (process_scan_results repr img ns d m'))"
  using process_results_agree [of k m m' repr img ns]
  by (auto simp: process_scan_results_def split: sum.splits)

lemma py_sleep_agree:
  "agree k m m' \<Longrightarrow> fst (py_sleep n m) = fst (py_sleep n m')
     \<and> agree k (snd (py_sleep n m)) (snd (py_sleep n m'))"
  by (auto simp: py_sleep_def agree_def)

lemma scan_loop_agree:
  "agree k m m' \<Longrightarrow> fst (scan_loop repr xs m) = fst (scan_loop repr xs m')
     \<and> agree k (snd (scan_loop repr xs m)) (snd (scan_loop repr xs m'))"
proof (induction xs arbitrary: m m')
  case Nil
  then show ?case by simp
next
  case (Cons x xs)
  obtain img ns a where x: "x = (img, ns, a)" by (cases x) auto
  from scan_image_agree [OF Cons.prems, of img ns a]
  obtain d n1 n1' where s: "scan_image img ns a m = (d, n1)" "scan_image img ns a m' = (d, n1')"
    and a1: "agree k n1 n1'"
    by (metis prod.collapse)
  define P where "P = (\<lambda>n. if truthy d then process_scan_results repr img ns d n else (None, n))"
  have "fst (P n1) = fst (P n1') \<and> agree k (snd (P n1)) (snd (P n1'))"
    using process_scan_results_agree [OF a1, of repr img ns d] a1 by (simp add: P_def)
  then obtain e n2 n2' where p: "P n1 = (e, n2)" "P n1' = (e, n2')" and a2: "agree k n2 n2'"
    by (metis prod.collapse)
  from py_sleep_agree [OF a2, of 2]
  obtain e3 n3 n3' where q: "py_sleep 2 n2 = (e3, n3)" "py_sleep 2 n2' = (e3, n3')" and a3: "agree k n3 n3'"
    by (metis prod.collapse)
  show ?case
  proof (cases e)
    case (Some ex)
    with x s p a2 show ?thesis by (simp add: P_def)
  next
    case None
    show ?thesis
    proof (cases e3)
      case (Some ex)
      with x s p q a3 None show ?thesis by (simp add: P_def)
    next
      case N3: None
      with x s p q None Cons.IH [OF a3] show ?thesis by (simp add: P_def)
    qed
  qed
qed

lemma scan_loop_failed_head:
  assumes "scan_fails a"
  shows "scan_loop repr ((img, ns, a) # rest) m =
           scan_loop repr rest (snd (py_sleep 2 (snd (scan_image img ns a m))))"
proof -
  obtain d n where s: "scan_image img ns a m = (d, n)" by (cases "scan_image img ns a m")
  with scan_image_fails [OF assms, of img ns m] have "d = JNull" by simp
  with s show ?thesis by (simp add: py_sleep_def)
qed

text \<open>
  C4. A scan attempt fails when the subprocess exits with a non-zero code, times out,
  cannot be run, or prints what does not decode. Then \<^verbatim>\<open>scan_image\<close> returns
  \<^verbatim>\<open>None\<close>, sets the error gauge of the subject to 1 and leaves the vulnerability gauge
  as it was; and the cycle with the failing subject anywhere among the others ends as the
  cycle without it does: it raises or not alike, with the same vulnerability gauge, the
  same last-scan timestamps and the same error gauge for every other subject.
\<close>

theorem failed_scan_is_isolated:
  assumes "scan_fails a"
  shows "fst (scan_image img ns a m) = JNull
       \<and> scan_errors (snd (scan_image img ns a m)) (img, ns) = Some 1
       \<and> vulnerability_gauge (snd (scan_image img ns a m)) = vulnerability_gauge m
       \<and> fst (scan_all_images repr (before @ (img, ns, a) # after) m)
           = fst (scan_all_images repr (before @ after) m)
       \<and> vulnerability_gauge (snd (scan_all_images repr (before @ (img, ns, a) # after) m))
           = vulnerability_gauge (snd (scan_all_images repr (before @ after) m))
       \<and> last_scan_timestamp (snd (scan_all_images repr (before @ (img, ns, a) # after) m))
           = last_scan_timestamp (snd (scan_all_images repr (before @ after) m))
       \<and> (\<forall>k. k \<noteq> (img, ns) \<longrightarrow>
            scan_errors (snd (scan_all_images repr (before @ (img, ns, a) # after) m)) k
              = scan_errors (snd (scan_all_images repr (before @ after) m)) k)"
proof -
  have local: "fst (scan_image img ns a m) = JNull
       \<and> scan_errors (snd (scan_image img ns a m)) (img, ns) = Some 1
       \<and> vulnerability_gauge (snd (scan_image img ns a m)) = vulnerability_gauge m"
    using scan_image_fails [OF assms, of img ns m] by (simp add: agree_def)
  obtain e n where pre: "scan_loop repr before m = (e, n)" by (cases "scan_loop repr before m")
  let ?with = "scan_loop repr (before @ (img, ns, a) # after) m"
  let ?without = "scan_loop repr (before @ after) m"
  have "fst ?with = fst ?without \<and> agree (img, ns) (snd ?with) (snd ?without)"
  proof (cases e)
    case (Some ex)
    with pre show ?thesis by (simp add: scan_loop_append agree_def)
  next
    case None
    have "agree (img, ns) (snd (py_sleep 2 (snd (scan_image img ns a n)))) n"
      using scan_image_fails [OF assms, of img ns n] by (simp add: py_sleep_def agree_def)
    from scan_loop_agree [OF this, of repr after] pre None show ?thesis
      by (simp add: scan_loop_append scan_loop_failed_head [OF assms] del: scan_loop.simps)
  qed
  with local show ?thesis
    by (simp add: scan_all_images_loop agree_def)
qed

text \<open>
  C10. When the subprocess exits with code zero and its output decodes as JSON,
  \<^verbatim>\<open>scan_image\<close> leaves the error gauge of (image, namespace) at 0 and the last-scan
  timestamp at the clock reading taken for it, whatever the gauge held before (also a 1
  from an earlier failed scan).
\<close>

theorem scan_image_success_clears_error:
  assumes "scan_succeeds a"
  shows "scan_errors (snd (scan_image img namespace a m)) (img, namespace) = Some 0
       \<and> last_scan_timestamp (snd (scan_image img namespace a m)) (img, namespace)
           = Some (stamp_time a)"
  using assms
  by (auto simp: scan_succeeds_def scan_image_def set_error_def observe_def Let_def
           split: proc.splits decoded.splits)

theorem scan_image_success_clears_error_witness:
  "scan_succeeds (scanned (JObj []))
   \<and> scan_errors (snd (scan_image ''app:1.0'' ''prod'' timed_out registry0)) (''app:1.0'', ''prod'') = Some 1
   \<and> scan_errors (snd (scan_image ''app:1.0'' ''prod'' (scanned (JObj []))
        (snd (scan_image ''app:1.0'' ''prod'' timed_out registry0)))) (''app:1.0'', ''prod'') = Some 0
   \<and> last_scan_timestamp (snd (scan_image ''app:1.0'' ''prod'' (scanned (JObj []))
        (snd (scan_image ''app:1.0'' ''prod'' timed_out registry0)))) (''app:1.0'', ''prod'') = Some 5"
proof -
  have h: "scan_succeeds (scanned (JObj []))"
    by (simp add: scan_succeeds_def scanned_def)
  show ?thesis
    using h scan_image_success_clears_error [OF h, of "''app:1.0''" "''prod''"
        "snd (scan_image ''app:1.0'' ''prod'' timed_out registry0)"]
    by (simp add: scanned_def timed_out_def scan_image_def set_error_def)
qed

theorem failed_scan_is_isolated_witness:
  "scan_fails timed_out
   \<and> fst (scan_all_images plain_repr
        [(''app:1.0'', ''prod'', timed_out), (''db:2'', ''prod'', scanned (libfoo_document ''db:2''))] registry0) = None
   \<and> vulnerability_gauge (snd (scan_all_images plain_repr
        [(''app:1.0'', ''prod'', timed_out), (''db:2'', ''prod'', scanned (libfoo_document ''db:2''))] registry0))
        [''db:2'', ''HIGH'', ''prod'', ''CVE-1'', ''libfoo'', ''N/A'', ''N/A''] = Some 1
   \<and> scan_errors (snd (scan_all_images plain_repr
        [(''app:1.0'', ''prod'', timed_out), (''db:2'', ''prod'', scanned (libfoo_document ''db:2''))] registry0))
        (''db:2'', ''prod'') = Some 0
   \<and> scan_errors (snd (scan_image ''app:1.0'' ''prod'' timed_out registry0)) (''app:1.0'', ''prod'') = Some 1"
proof -
  let ?others = "[(''db:2'', ''prod'', scanned (libfoo_document ''db:2''))]"
  let ?all = "[] @ (''app:1.0'', ''prod'', timed_out) # ?others"
  have h: "scan_fails timed_out"
    by (simp add: scan_fails_def timed_out_def)
  have w: "fst (scan_all_images plain_repr ([] @ ?others) registry0) = None
    \<and> vulnerability_gauge (snd (scan_all_images plain_repr ([] @ ?others) registry0))
        [''db:2'', ''HIGH'', ''prod'', ''CVE-1'', ''libfoo'', ''N/A'', ''N/A''] = Some 1
    \<and> scan_errors (snd (scan_all_images plain_repr ([] @ ?others) registry0))
        (''db:2'', ''prod'') = Some 0"
    by (simp add: scan_all_images_def scan_image_def scanned_def libfoo_document_def libfoo_vuln_def
          process_scan_results_def process_result_def process_vuln_def py_sleep_def
          set_error_def observe_def registry0_def)
  note t = failed_scan_is_isolated [OF h, of "''app:1.0''" "''prod''" registry0 plain_repr "[]" ?others]
  from t have e: "scan_errors (snd (scan_all_images plain_repr ?all registry0)) (''db:2'', ''prod'')
      = scan_errors (snd (scan_all_images plain_repr ([] @ ?others) registry0)) (''db:2'', ''prod'')"
    by simp
  from t w e have "fst (scan_all_images plain_repr ?all registry0) = None
    \<and> vulnerability_gauge (snd (scan_all_images plain_repr ?all registry0))
        [''db:2'', ''HIGH'', ''prod'', ''CVE-1'', ''libfoo'', ''N/A'', ''N/A''] = Some 1
    \<and> scan_errors (snd (scan_all_images plain_repr ?all registry0)) (''db:2'', ''prod'') = Some 0
    \<and> scan_errors (snd (scan_image ''app:1.0'' ''prod'' timed_out registry0)) (''app:1.0'', ''prod'') = Some 1"
    by simp
  with h show ?thesis by simp
qed

text \<open>
  C5. The duration is observed after \<^verbatim>\<open>subprocess.run\<close> has returned. A scan that
  times out leaves \<^verbatim>\<open>scan_image\<close> through the handler of \<^verbatim>\<open>TimeoutExpired\<close>: the
  error gauge is set and the histogram has no observation, while an attempt that exits
  with a non-zero code has its duration observed.
\<close>

theorem timed_out_scan_records_no_duration:
  "scan_duration (snd (scan_image ''app:1.0'' ''prod'' timed_out registry0)) ''app:1.0'' = []
   \<and> scan_errors (snd (scan_image ''app:1.0'' ''prod'' timed_out registry0)) (''app:1.0'', ''prod'') = Some 1
   \<and> scan_duration (snd (scan_image ''app:1.0'' ''prod''
         \<lparr>start_time = 0, run = Completed 1 Undecodable, end_time = 7, stamp_time = 7\<rparr> registry0)) ''app:1.0'' = [7]"
  by (simp add: scan_image_def timed_out_def set_error_def observe_def registry0_def)

section \<open>Readiness and the sleep between cycles\<close>

lemma py_get_stored: "py_get (JObj kvs) key dflt = Inr (stored kvs key dflt)"
  by (simp add: stored_def split: option.splits)

lemma main_iteration_ready:
  "ready s \<Longrightarrow> ready (snd (main_iteration repr fromiso interval d s))"
  by (cases "update_metrics repr fromiso d (metrics s)") (simp add: main_iteration_def Let_def)

lemma main_cycles_ready:
  "ready s \<Longrightarrow> ready (snd (main_cycles repr fromiso interval ds s))"
proof (induction ds arbitrary: s)
  case Nil
  then show ?case by simp
next
  case (Cons d ds)
  obtain e s' where it: "main_iteration repr fromiso interval d s = (e, s')"
    by (cases "main_iteration repr fromiso interval d s")
  with main_iteration_ready [OF Cons.prems, of repr fromiso interval d] have r: "ready s'" by simp
  show ?case
  proof (cases e)
    case None
    with it Cons.IH [OF r] show ?thesis by simp
  next
    case (Some x)
    with it r show ?thesis by simp
  qed
qed

lemma main_iteration_sets_ready:
  "fst (update_metrics repr fromiso d (metrics s)) = None \<Longrightarrow>
     ready (snd (main_iteration repr fromiso interval d s))"
  by (cases "update_metrics repr fromiso d (metrics s)") (simp add: main_iteration_def Let_def)

text \<open>
  C2. \<^verbatim>\<open>GET /-/ready\<close> answers 503 in the initial state and in every state where
  \<^verbatim>\<open>_ready\<close> is not set. Once a cycle has reached the end of \<^verbatim>\<open>update_metrics\<close>
  (its publish step; a cycle that found no subject does), the answer is 200 after that
  cycle and after any number of further cycles, failing ones included: nothing unsets
  the event.
\<close>

theorem readiness_is_a_latch:
  "fst (do_GET ''/-/ready'' server0) = 503
   \<and> (\<not> ready s \<longrightarrow> fst (do_GET ''/-/ready'' s) = 503)
   \<and> (fst (update_metrics repr fromiso d (metrics s)) = None \<longrightarrow>
        fst (do_GET ''/-/ready'' (snd (main_cycles repr fromiso interval (d # ds) s))) = 200)
   \<and> (ready s \<longrightarrow> fst (do_GET ''/-/ready'' (snd (main_cycles repr fromiso interval ds s))) = 200)"
proof -
  have a: "fst (do_GET ''/-/ready'' server0) = 503"
    by (simp add: do_GET_def server0_def)
  have b: "\<not> ready s \<longrightarrow> fst (do_GET ''/-/ready'' s) = 503"
    by (simp add: do_GET_def)
  have latch: "ready t \<Longrightarrow> fst (do_GET ''/-/ready'' (snd (main_cycles repr fromiso interval ds t))) = 200" for t
    using main_cycles_ready [of t repr fromiso interval ds] by (simp add: do_GET_def)
  have c: "fst (do_GET ''/-/ready'' (snd (main_cycles repr fromiso interval (d # ds) s))) = 200"
    if h: "fst (update_metrics repr fromiso d (metrics s)) = None"
  proof -
    obtain e s' where it: "main_iteration repr fromiso interval d s = (e, s')"
      by (cases "main_iteration repr fromiso interval d s")
    with main_iteration_sets_ready [OF h, of interval] have r: "ready s'" by simp
    show ?thesis
    proof (cases e)
      case None
      with it latch [OF r] show ?thesis by simp
    next
      case (Some x)
      with it r show ?thesis by (simp add: do_GET_def)
    qed
  qed
  from a b c latch show ?thesis by blast
qed

theorem readiness_is_a_latch_witness:
  "\<not> ready server0
   \<and> fst (update_metrics plain_repr no_clock Missing (metrics server0)) = None
   \<and> fst (do_GET ''/-/ready'' server0) = 503
   \<and> fst (do_GET ''/-/ready'' (snd (main_cycles plain_repr no_clock 300
        [Missing, Files [Readable (Document unhashable_document)]] server0))) = 200
   \<and> ready (snd (main_cycles plain_repr no_clock 300 [Missing] server0))
   \<and> fst (do_GET ''/-/ready'' (snd (main_cycles plain_repr no_clock 300
        [Files [Readable (Document unhashable_document)]]
        (snd (main_cycles plain_repr no_clock 300 [Missing] server0))))) = 200"
proof -
  have h1: "\<not> ready server0" by (simp add: server0_def)
  have h2: "fst (update_metrics plain_repr no_clock Missing (metrics server0)) = None"
    by (simp add: update_metrics_def update_metrics_calls_def)
  have h3: "ready (snd (main_cycles plain_repr no_clock 300 [Missing] server0))"
    by (simp add: main_iteration_def update_metrics_def update_metrics_calls_def Let_def)
  note t1 = readiness_is_a_latch [of server0 plain_repr no_clock Missing 300
      "[Files [Readable (Document unhashable_document)]]"]
  note t2 = readiness_is_a_latch [of "snd (main_cycles plain_repr no_clock 300 [Missing] server0)"
      plain_repr no_clock Missing 300 "[Files [Readable (Document unhashable_document)]]"]
  from t1 h1 h2 have a: "fst (do_GET ''/-/ready'' server0) = 503
    \<and> fst (do_GET ''/-/ready'' (snd (main_cycles plain_repr no_clock 300
        [Missing, Files [Readable (Document unhashable_document)]] server0))) = 200"
    by simp
  from t2 h3 have b: "fst (do_GET ''/-/ready'' (snd (main_cycles plain_repr no_clock 300
        [Files [Readable (Document unhashable_document)]]
        (snd (main_cycles plain_repr no_clock 300 [Missing] server0))))) = 200"
    by simp
  from h1 h2 h3 a b show ?thesis by simp
qed

text \<open>
  C6. In \<^verbatim>\<open>TrivyExporter.run\<close> the sleep of \<open>interval\<close> seconds is inside the
  \<^verbatim>\<open>try\<close>; a cycle that raises reaches the handler, which sleeps 60 seconds. With
  the default interval of 3600 seconds a failed cycle is followed by a sleep of 60.
\<close>

theorem failed_cycle_sleeps_60_counterexample:
  "fst (scan_all_images plain_repr [(''app:1.0'', ''prod'', scanned null_document)] registry0)
     = Some TypeError
   \<and> slept (run_iteration plain_repr 3600 [(''app:1.0'', ''prod'', scanned null_document)] registry0)
     = [60]"
  by (simp add: run_iteration_def scan_all_images_def scan_image_def scanned_def null_document_def
        process_scan_results_def process_result_def py_sleep_def set_error_def observe_def
        registry0_def)

text \<open>
  C6, as the code has it. With a non-negative interval, \<^verbatim>\<open>main\<close> of
  trivy-exporter.py sleeps the full interval after every cycle, whether
  \<^verbatim>\<open>update_metrics\<close> raised or not. \<^verbatim>\<open>TrivyExporter.run\<close> sleeps the full
  interval after a cycle that completes and 60 seconds after a cycle that raises.
\<close>

theorem sleep_after_cycle:
  assumes "0 \<le> interval"
  shows "fst (main_iteration repr fromiso interval d s) = None
       \<and> sleeps (snd (main_iteration repr fromiso interval d s)) = sleeps s @ [interval]
       \<and> (fst (scan_all_images repr images m) = None \<longrightarrow>
            slept (run_iteration repr interval images m)
              = slept (snd (scan_all_images repr images m)) @ [interval])
       \<and> (fst (scan_all_images repr images m) \<noteq> None \<longrightarrow>
            slept (run_iteration repr interval images m)
              = slept (snd (scan_all_images repr images m)) @ [60])"
  using assms
  by (auto simp: main_iteration_def Let_def run_iteration_def py_sleep_def
           split: prod.splits option.splits)

theorem sleep_after_cycle_witness:
  "(0::int) \<le> 300
   \<and> fst (update_metrics plain_repr no_clock (Files [Readable (Document unhashable_document)]) exporter0)
       = Some TypeError
   \<and> sleeps (snd (main_iteration plain_repr no_clock 300
        (Files [Readable (Document unhashable_document)]) server0)) = [300]
   \<and> fst (scan_all_images plain_repr [(''app:1.0'', ''prod'', scanned null_document)] registry0) \<noteq> None
   \<and> slept (run_iteration plain_repr 300 [(''app:1.0'', ''prod'', scanned null_document)] registry0) = [60]
   \<and> fst (scan_all_images plain_repr [(''app:1.0'', ''prod'', timed_out)] registry0) = None
   \<and> slept (run_iteration plain_repr 300 [(''app:1.0'', ''prod'', timed_out)] registry0) = [2, 300]"
proof -
  have h: "(0::int) \<le> 300" by simp
  have u: "fst (update_metrics plain_repr no_clock (Files [Readable (Document unhashable_document)]) exporter0)
       = Some TypeError"
    by (simp add: update_metrics_def update_metrics_calls_def parse_trivy_report_def parse_body_def
          parse_document_def parse_result_def parse_vuln_def andthen_def unhashable_document_def
          report_calls_def)
  have f: "fst (scan_all_images plain_repr [(''app:1.0'', ''prod'', scanned null_document)] registry0)
       = Some TypeError
     \<and> slept (snd (scan_all_images plain_repr [(''app:1.0'', ''prod'', scanned null_document)] registry0)) = []"
    by (simp add: scan_all_images_def scan_image_def scanned_def null_document_def
        process_scan_results_def process_result_def py_sleep_def set_error_def observe_def
        registry0_def)
  have g: "fst (scan_all_images plain_repr [(''app:1.0'', ''prod'', timed_out)] registry0) = None
     \<and> slept (snd (scan_all_images plain_repr [(''app:1.0'', ''prod'', timed_out)] registry0)) = [2]"
    by (simp add: scan_all_images_def scan_image_def timed_out_def py_sleep_def set_error_def
        registry0_def)
  note t1 = sleep_after_cycle [OF h, of plain_repr no_clock
      "Files [Readable (Document unhashable_document)]" server0
      "[(''app:1.0'', ''prod'', scanned null_document)]" registry0]
  note t2 = sleep_after_cycle [OF h, of plain_repr no_clock
      "Files [Readable (Document unhashable_document)]" server0
      "[(''app:1.0'', ''prod'', timed_out)]" registry0]
  from t1 f have a: "sleeps (snd (main_iteration plain_repr no_clock 300
        (Files [Readable (Document unhashable_document)]) server0)) = [300]
      \<and> slept (run_iteration plain_repr 300 [(''app:1.0'', ''prod'', scanned null_document)] registry0) = [60]"
    by (simp add: server0_def)
  from t2 g have b: "slept (run_iteration plain_repr 300 [(''app:1.0'', ''prod'', timed_out)] registry0) = [2, 300]"
    by simp
  from h u f g a b show ?thesis by simp
qed

section \<open>Directories without reports\<close>

lemma empty_directory_publishes_zero:
  "d \<in> {Missing, NotADirectory, GlobPermissionError, GlobException, Files []} \<Longrightarrow>
     update_metrics repr fromiso d m
       = (None, m\<lparr>trivy_image_vulnerabilities := [], trivy_vulnerability_info := [],
                 trivy_images_scanned := 0\<rparr>)"
  by (auto simp: update_metrics_def update_metrics_calls_def perform_all_def)

text \<open>
  C7. \<^verbatim>\<open>update_metrics\<close> of trivy-exporter.py publishes zero for a directory that is
  missing, unreadable or empty. The dashboard exporter returns before it
  touches a metric when the directory is missing: after a cycle that read one report
  with two findings, a cycle on a missing directory leaves the count family and
  \<^verbatim>\<open>trivy_images_scanned\<close> = 1 exposed.
\<close>

theorem dashboard_missing_directory_keeps_old_metrics:
  "dashboard_update_metrics plain_repr no_clock (Files [Readable (Document (libfoo_document ''app:1.0''))]) exporter0
     = (None, exporter0\<lparr>trivy_image_vulnerabilities := [((''app:1.0'', ''HIGH'', ''libfoo''), 2)],
          trivy_vulnerability_id :=
            [([''CVE-1'', ''app:1.0'', ''libfoo'', ''HIGH''], (JStr [], JStr [], JStr [])),
             ([''CVE-2'', ''app:1.0'', ''libfoo'', ''HIGH''], (JStr [], JStr [], JStr []))],
          trivy_images_scanned := 1\<rparr>)
   \<and> dashboard_update_metrics plain_repr no_clock Missing
       (snd (dashboard_update_metrics plain_repr no_clock
          (Files [Readable (Document (libfoo_document ''app:1.0''))]) exporter0))
     = (None, exporter0\<lparr>trivy_image_vulnerabilities := [((''app:1.0'', ''HIGH'', ''libfoo''), 2)],
          trivy_vulnerability_id :=
            [([''CVE-1'', ''app:1.0'', ''libfoo'', ''HIGH''], (JStr [], JStr [], JStr [])),
             ([''CVE-2'', ''app:1.0'', ''libfoo'', ''HIGH''], (JStr [], JStr [], JStr []))],
          trivy_images_scanned := 1\<rparr>)"
  by (simp add: dashboard_update_metrics_def dashboard_update_metrics_calls_def
        dashboard_parse_trivy_report_def dashboard_parse_document_def dashboard_parse_result_def
        dashboard_parse_vuln_def andthen_def libfoo_document_def libfoo_vuln_def
        dashboard_report_calls_def dashboard_info_calls_def timestamp_calls_def count_calls_def
        perform_all_def exporter0_def Let_def)

section \<open>Reports that do not decode, and defaults\<close>

lemma parse_undecodable: "parse_trivy_report (Readable Undecodable) = None"
  by (simp add: parse_trivy_report_def parse_body_def)

lemma dashboard_parse_undecodable: "dashboard_parse_trivy_report (Readable Undecodable) = None"
  by (simp add: dashboard_parse_trivy_report_def)

lemma files_loop_skips:
  "files_loop repr fromiso (pre @ Readable Undecodable # post) n
     = files_loop repr fromiso (pre @ post) n"
  by (induction pre arbitrary: n) (simp_all add: parse_undecodable split: option.splits prod.splits)

lemma dashboard_files_loop_skips:
  "dashboard_files_loop repr fromiso (pre @ Readable Undecodable # post) n
     = dashboard_files_loop repr fromiso (pre @ post) n"
  by (induction pre arbitrary: n)
     (simp_all add: dashboard_parse_undecodable split: option.splits prod.splits)

lemma update_metrics_calls_skips:
  "update_metrics_calls repr fromiso (Files (pre @ Readable Undecodable # post))
     = update_metrics_calls repr fromiso (Files (pre @ post))"
proof (cases "pre @ post = []")
  case True
  then show ?thesis
    by (simp add: update_metrics_calls_def parse_undecodable)
next
  case False
  then show ?thesis
    by (simp add: update_metrics_calls_def files_loop_skips)
qed

text \<open>
  C8. The file-backed exporters have no error metric. A cycle over a directory whose only
  file does not decode ends with the metrics of a fresh process: nothing records the file.
\<close>

theorem undecodable_report_leaves_no_trace_counterexample:
  "parse_trivy_report (Readable Undecodable) = None
   \<and> update_metrics plain_repr no_clock (Files [Readable Undecodable]) exporter0 = (None, exporter0)
   \<and> dashboard_update_metrics plain_repr no_clock (Files [Readable Undecodable]) exporter0
       = (None, exporter0)"
  by (simp add: update_metrics_def update_metrics_calls_def parse_undecodable perform_all_def
        dashboard_update_metrics_def dashboard_update_metrics_calls_def dashboard_parse_undecodable
        exporter0_def)

text \<open>
  C8, as the code has it. A file that does not decode makes \<^verbatim>\<open>parse_trivy_report\<close>
  return \<^verbatim>\<open>None\<close> in both file-backed exporters, and their loops over the report
  files skip it: the file is not counted in \<^verbatim>\<open>images_scanned\<close> and no call is made
  for it. A cycle of trivy-exporter.py leaves the metrics of the cycle over the directory
  without the file.
\<close>

theorem undecodable_report_is_skipped:
  "parse_trivy_report (Readable Undecodable) = None
   \<and> dashboard_parse_trivy_report (Readable Undecodable) = None
   \<and> update_metrics repr fromiso (Files (pre @ Readable Undecodable # post)) m
       = update_metrics repr fromiso (Files (pre @ post)) m
   \<and> files_loop repr fromiso (pre @ Readable Undecodable # post) n
       = files_loop repr fromiso (pre @ post) n
   \<and> dashboard_files_loop repr fromiso (pre @ Readable Undecodable # post) n
       = dashboard_files_loop repr fromiso (pre @ post) n"
  by (simp add: parse_undecodable dashboard_parse_undecodable update_metrics_def
        update_metrics_calls_skips files_loop_skips dashboard_files_loop_skips)

text \<open>
  C9. A document without \<^verbatim>\<open>ArtifactName\<close> parses to the image name
  \<^verbatim>\<open>unknown\<close>, not to the empty string; \<^verbatim>\<open>process_scan_results\<close> labels the
  missing fields of a finding \<^verbatim>\<open>N/A\<close>, and it raises \<^verbatim>\<open>TypeError\<close> on a result
  whose \<^verbatim>\<open>Vulnerabilities\<close> is \<^verbatim>\<open>null\<close>.
\<close>

theorem parse_defaults_counterexample:
  "parse_trivy_report (Readable (Document (JObj [])))
     = Some \<lparr>report_image = JStr ''unknown'', scan_time = JStr [], vulnerabilities = []\<rparr>
   \<and> process_vuln plain_repr ''app:1.0'' ''prod'' (JObj []) registry0
     = (None, registry0\<lparr>vulnerability_gauge :=
          [[''app:1.0'', ''UNKNOWN'', ''prod'', ''N/A'', ''N/A'', ''N/A'', ''N/A''] \<mapsto> 1]\<rparr>)
   \<and> fst (process_scan_results plain_repr ''app:1.0'' ''prod'' null_document registry0)
     = Some TypeError"
  by (simp add: parse_trivy_report_def parse_body_def parse_document_def andthen_def
        process_vuln_def process_scan_results_def process_result_def null_document_def
        registry0_def)

text \<open>
  C9, as the code has it. \<^verbatim>\<open>parse_trivy_report\<close> returns \<^verbatim>\<open>None\<close> for a file that
  cannot be read or decoded, and exactly when its body raises; nothing leaves it. A JSON
  object parses to a report exactly when its \<^verbatim>\<open>Results\<close> can be walked; a missing
  \<^verbatim>\<open>ArtifactName\<close> becomes \<^verbatim>\<open>unknown\<close>, a missing \<^verbatim>\<open>CreatedAt\<close> the empty
  string, missing \<^verbatim>\<open>Results\<close> and missing or \<^verbatim>\<open>null\<close> \<^verbatim>\<open>Vulnerabilities\<close> no
  findings. Every finding that is an object parses: a missing \<^verbatim>\<open>Severity\<close> becomes
  \<^verbatim>\<open>UNKNOWN\<close> and the other missing fields the empty string. In
  \<^verbatim>\<open>process_scan_results\<close> a finding that is an object sets its sample with a missing
  \<^verbatim>\<open>Severity\<close> as \<^verbatim>\<open>UNKNOWN\<close> and the other missing fields as \<^verbatim>\<open>N/A\<close>.
\<close>

theorem parse_never_raises_and_defaults:
  "parse_trivy_report Unreadable = None
   \<and> parse_trivy_report (Readable Undecodable) = None
   \<and> (parse_trivy_report f = None) = (\<exists>e. parse_body f = Inl e)
   \<and> (\<exists>r. parse_trivy_report (Readable (Document (JObj kvs))) = Some r) =
       (\<exists>vs. andthen (py_iter (stored kvs ''Results'' (JArr [])))
               (parse_results (stored kvs ''ArtifactName'' (JStr ''unknown''))) = Inr vs)
   \<and> parse_document (JObj [])
       = Inr \<lparr>report_image = JStr ''unknown'', scan_time = JStr [], vulnerabilities = []\<rparr>
   \<and> parse_result img (JObj []) = Inr []
   \<and> parse_result img (JObj [(''Vulnerabilities'', JNull)]) = Inr []
   \<and> parse_vuln img (JObj vuln)
       = Inr \<lparr>finding_image = img,
              vulnerability_id = stored vuln ''VulnerabilityID'' (JStr []),
              package = stored vuln ''PkgName'' (JStr []),
              installed_version = stored vuln ''InstalledVersion'' (JStr []),
              fixed_version = stored vuln ''FixedVersion'' (JStr []),
              severity = stored vuln ''Severity'' (JStr ''UNKNOWN''),
              title = stored vuln ''Title'' (JStr [])\<rparr>
   \<and> stored [] key dflt = dflt
   \<and> process_vuln repr image_name namespace (JObj vuln) m
       = (None, m\<lparr>vulnerability_gauge := (vulnerability_gauge m)
            ([image_name, label repr (stored vuln ''Severity'' (JStr ''UNKNOWN'')), namespace,
              label repr (stored vuln ''VulnerabilityID'' (JStr ''N/A'')),
              label repr (stored vuln ''PkgName'' (JStr ''N/A'')),
              label repr (stored vuln ''InstalledVersion'' (JStr ''N/A'')),
              label repr (stored vuln ''FixedVersion'' (JStr ''N/A''))] \<mapsto> 1)\<rparr>)"
proof -
  have a: "parse_trivy_report Unreadable = None" "parse_trivy_report (Readable Undecodable) = None"
    by (simp_all add: parse_trivy_report_def parse_body_def)
  have b: "(parse_trivy_report f = None) = (\<exists>e. parse_body f = Inl e)"
    by (cases "parse_body f") (simp_all add: parse_trivy_report_def)
  have c: "(\<exists>r. parse_trivy_report (Readable (Document (JObj kvs))) = Some r) =
       (\<exists>vs. andthen (py_iter (stored kvs ''Results'' (JArr [])))
               (parse_results (stored kvs ''ArtifactName'' (JStr ''unknown''))) = Inr vs)"
    by (simp add: parse_trivy_report_def parse_body_def parse_document_def py_get_stored
          andthen_def del: py_get.simps split: sum.splits)
  have d: "parse_document (JObj [])
       = Inr \<lparr>report_image = JStr ''unknown'', scan_time = JStr [], vulnerabilities = []\<rparr>"
    by (simp add: parse_document_def andthen_def)
  have e: "parse_result img (JObj []) = Inr []"
    "parse_result img (JObj [(''Vulnerabilities'', JNull)]) = Inr []"
    by (simp_all add: parse_result_def andthen_def)
  have g: "parse_vuln img (JObj vuln)
       = Inr \<lparr>finding_image = img,
              vulnerability_id = stored vuln ''VulnerabilityID'' (JStr []),
              package = stored vuln ''PkgName'' (JStr []),
              installed_version = stored vuln ''InstalledVersion'' (JStr []),
              fixed_version = stored vuln ''FixedVersion'' (JStr []),
              severity = stored vuln ''Severity'' (JStr ''UNKNOWN''),
              title = stored vuln ''Title'' (JStr [])\<rparr>"
    by (simp add: parse_vuln_def py_get_stored andthen_def del: py_get.simps)
  have h: "stored [] key dflt = dflt"
    by (simp add: stored_def)
  have i: "process_vuln repr image_name namespace (JObj vuln) m
       = (None, m\<lparr>vulnerability_gauge := (vulnerability_gauge m)
            ([image_name, label repr (stored vuln ''Severity'' (JStr ''UNKNOWN'')), namespace,
              label repr (stored vuln ''VulnerabilityID'' (JStr ''N/A'')),
              label repr (stored vuln ''PkgName'' (JStr ''N/A'')),
              label repr (stored vuln ''InstalledVersion'' (JStr ''N/A'')),
              label repr (stored vuln ''FixedVersion'' (JStr ''N/A''))] \<mapsto> 1)\<rparr>)"
    by (simp add: process_vuln_def py_get_stored del: py_get.simps)
  from a b c d e g h i show ?thesis by simp
qed

section \<open>The sum of the count family\<close>

lemma family_perform: "trivy_image_vulnerabilities (perform c m) = family_step c (trivy_image_vulnerabilities m)"
  by (cases c) simp_all

lemma family_perform_all:
  "trivy_image_vulnerabilities (perform_all cs m) = fold family_step cs (trivy_image_vulnerabilities m)"
  unfolding perform_all_def
  by (induction cs arbitrary: m) (simp_all add: family_perform)

lemma update_fresh: "k \<notin> fst ` set g \<Longrightarrow> AList.update k v g = g @ [(k, v)]"
  by (induction g) auto

lemma is_text_str: "is_text a \<Longrightarrow> \<exists>s. a = JStr s"
  by (cases a) simp_all

lemma text_hashable: "is_text a \<Longrightarrow> hashable a"
  by (cases a) simp_all

lemma py_eq_text: "is_text a \<Longrightarrow> py_eq a b = (a = b)"
  by (cases a) simp_all

lemma key_eq_text: "text_key k \<Longrightarrow> key_eq k k' = (k = k')"
  by (cases k; cases k') (auto simp: py_eq_text)

lemma bump_total: "sum_list (map snd (bump k c)) = Suc (sum_list (map snd c))"
  by (induction c) auto

lemma bump_keys: "text_key k \<Longrightarrow> fst ` set (bump k c) = insert k (fst ` set c)"
  by (induction k c rule: bump.induct) (auto simp: key_eq_text)

lemma bump_distinct: "text_key k \<Longrightarrow> distinct (map fst c) \<Longrightarrow> distinct (map fst (bump k c))"
proof (induction k c rule: bump.induct)
  case (1 k)
  then show ?case by simp
next
  case (2 k k' n counts)
  show ?case
  proof (cases "k = k'")
    case True
    with 2 show ?thesis by (simp add: key_eq_text)
  next
    case False
    with 2 bump_keys [OF "2.prems"(1), of counts] show ?thesis by (simp add: key_eq_text)
  qed
qed

lemma info_calls_quiet: "fold family_step (info_calls repr img v) g = g"
  by (simp add: info_calls_def split: sum.splits)

lemma timestamp_calls_quiet: "fold family_step (timestamp_calls repr fromiso r) g = g"
  by (simp add: timestamp_calls_def split: json.splits option.splits)

lemma good_counts_bump:
  assumes "good_counts img c" "is_text img" "is_text s" "is_text p"
  shows "good_counts img (bump (img, s, p) c)"
proof -
  have t: "text_key (img, s, p)" using assms by simp
  show ?thesis
    using assms(1) bump_keys [OF t, of c] bump_distinct [OF t, of c]
    by (auto simp: good_counts_def assms)
qed

lemma count_loop_text:
  assumes "is_text img" "list_all (\<lambda>v. is_text (severity v) \<and> is_text (package v)) vs"
    "good_counts img c"
  shows "\<exists>cs c'. count_loop repr img vs c = (cs, Inr c') \<and> (\<forall>g. fold family_step cs g = g)
           \<and> good_counts img c' \<and> sum_list (map snd c') = sum_list (map snd c) + length vs"
  using assms
proof (induction vs arbitrary: c)
  case Nil
  then show ?case by simp
next
  case (Cons v vs)
  have h: "hashable img" "hashable (severity v)" "hashable (package v)"
    using Cons.prems by (simp_all add: text_hashable)
  have g: "good_counts img (bump (img, severity v, package v) c)"
    using good_counts_bump [OF Cons.prems(3) Cons.prems(1)] Cons.prems(2) by simp
  from Cons.IH [OF Cons.prems(1) _ g] Cons.prems(2)
  obtain cs c' where r: "count_loop repr img vs (bump (img, severity v, package v) c) = (cs, Inr c')"
    and q: "\<forall>g. fold family_step cs g = g" and gc: "good_counts img c'"
    and s: "sum_list (map snd c') = sum_list (map snd (bump (img, severity v, package v) c)) + length vs"
    by auto
  show ?case
    using h r q gc s by (simp add: info_calls_quiet bump_total)
qed

lemma key_labels_text: "text_key k \<Longrightarrow> \<exists>a b c. k = (JStr a, JStr b, JStr c) \<and> key_labels repr k = (a, b, c)"
proof -
  assume t: "text_key k"
  obtain x y z where k: "k = (x, y, z)" by (cases k)
  with t have "is_text x" "is_text y" "is_text z" by simp_all
  then obtain a b c where "x = JStr a" "y = JStr b" "z = JStr c"
    by (meson is_text_str)
  with k show ?thesis by (simp add: key_labels_def)
qed

lemma key_labels_text_inj:
  assumes "text_key k" "text_key k'" "key_labels repr k = key_labels repr k'"
  shows "k = k'"
proof -
  from key_labels_text [OF assms(1), of repr] obtain a b c
    where k: "k = (JStr a, JStr b, JStr c)" "key_labels repr k = (a, b, c)" by blast
  from key_labels_text [OF assms(2), of repr] obtain a' b' c'
    where k': "k' = (JStr a', JStr b', JStr c')" "key_labels repr k' = (a', b', c')" by blast
  from k k' assms(3) show ?thesis by simp
qed

lemma count_calls_fresh:
  assumes "distinct (map fst c)" "\<forall>k \<in> fst ` set c. text_key k"
    "\<forall>k \<in> fst ` set c. key_labels repr k \<notin> fst ` set g"
  shows "fold family_step (count_calls repr c) g = g @ map (\<lambda>(k, n). (key_labels repr k, n)) c"
  using assms
proof (induction c arbitrary: g)
  case Nil
  then show ?case by (simp add: count_calls_def)
next
  case (Cons x c)
  obtain k n where x: "x = (k, n)" by (cases x)
  have fresh: "key_labels repr k \<notin> fst ` set g" using Cons.prems(3) x by simp
  have step: "fold family_step (count_calls repr (x # c)) g
      = fold family_step (count_calls repr c) (g @ [(key_labels repr k, n)])"
    using update_fresh [OF fresh, of n] x
    by (cases k) (simp add: count_calls_def key_labels_def)
  have later: "\<forall>k' \<in> fst ` set c. key_labels repr k' \<notin> fst ` set (g @ [(key_labels repr k, n)])"
  proof
    fix k' assume m: "k' \<in> fst ` set c"
    have "k' \<noteq> k" using Cons.prems(1) x m by auto
    moreover have "text_key k" "text_key k'" using Cons.prems(2) x m by auto
    ultimately have "key_labels repr k' \<noteq> key_labels repr k"
      using key_labels_text_inj by blast
    moreover have "key_labels repr k' \<notin> fst ` set g" using Cons.prems(3) m by auto
    ultimately show "key_labels repr k' \<notin> fst ` set (g @ [(key_labels repr k, n)])" by simp
  qed
  have d: "distinct (map fst c)" using Cons.prems(1) by simp
  have t: "\<forall>k \<in> fst ` set c. text_key k" using Cons.prems(2) by simp
  from Cons.IH [OF d t later] x step show ?case by simp
qed

lemma family_images_append: "family_images (g @ h) = family_images g \<union> family_images h"
  by (auto simp: family_images_def)

lemma family_images_key: "k \<in> fst ` set g \<Longrightarrow> fst k \<in> family_images g"
  by (auto simp: family_images_def)

lemma good_counts_Nil: "good_counts img []"
  by (simp add: good_counts_def)

lemma report_calls_text:
  assumes "text_keys r" "label repr (report_image r) \<notin> family_images g"
  shows "\<exists>cs. report_calls repr fromiso r = (cs, None)
     \<and> sum_list (map snd (fold family_step cs g)) = sum_list (map snd g) + length (vulnerabilities r)
     \<and> family_images (fold family_step cs g)
         \<subseteq> insert (label repr (report_image r)) (family_images g)"
proof -
  let ?img = "report_image r"
  have ti: "is_text ?img"
    and tv: "list_all (\<lambda>v. is_text (severity v) \<and> is_text (package v)) (vulnerabilities r)"
    using assms(1) by (simp_all add: text_keys_def)
  from count_loop_text [OF ti tv good_counts_Nil, of repr]
  obtain cs0 c where cl: "count_loop repr ?img (vulnerabilities r) [] = (cs0, Inr c)"
    and q: "\<forall>g. fold family_step cs0 g = g" and gc: "good_counts ?img c"
    and tot: "sum_list (map snd c) = length (vulnerabilities r)"
    by auto
  have lab: "fst (key_labels repr k) = label repr ?img" if "k \<in> fst ` set c" for k
  proof -
    from gc that have "fst k = ?img" by (auto simp: good_counts_def)
    then show ?thesis by (cases k) (simp add: key_labels_def)
  qed
  have fresh: "\<forall>k \<in> fst ` set c. key_labels repr k \<notin> fst ` set g"
  proof
    fix k assume k: "k \<in> fst ` set c"
    show "key_labels repr k \<notin> fst ` set g"
    proof
      assume "key_labels repr k \<in> fst ` set g"
      then have "fst (key_labels repr k) \<in> family_images g" by (rule family_images_key)
      with lab [OF k] assms(2) show False by simp
    qed
  qed
  have d: "distinct (map fst c)" and t: "\<forall>k \<in> fst ` set c. text_key k"
    using gc by (auto simp: good_counts_def)
  let ?cs = "timestamp_calls repr fromiso r @ cs0 @ count_calls repr c"
  have rc: "report_calls repr fromiso r = (?cs, None)"
    by (simp add: report_calls_def cl)
  have res: "fold family_step ?cs g = g @ map (\<lambda>(k, n). (key_labels repr k, n)) c"
    using count_calls_fresh [OF d t fresh] q by (simp add: timestamp_calls_quiet)
  have s1: "sum_list (map snd (map (\<lambda>(k, n). (key_labels repr k, n)) c)) = sum_list (map snd c)"
    by (induction c) auto
  have imgs: "family_images (map (\<lambda>(k, n). (key_labels repr k, n)) c) \<subseteq> {label repr ?img}"
  proof
    fix x assume "x \<in> family_images (map (\<lambda>(k, n). (key_labels repr k, n)) c)"
    then obtain k n where kn: "(k, n) \<in> set c" and x: "x = fst (key_labels repr k)"
      by (auto simp: family_images_def)
    from kn have "k \<in> fst ` set c" by force
    with lab x show "x \<in> {label repr ?img}" by simp
  qed
  have a: "sum_list (map snd (fold family_step ?cs g)) = sum_list (map snd g) + length (vulnerabilities r)"
    unfolding res using s1 tot by simp
  have b: "family_images (fold family_step ?cs g) \<subseteq> insert (label repr ?img) (family_images g)"
    unfolding res family_images_append using imgs by auto
  from rc a b show ?thesis by blast
qed

lemma label_text_inj: "is_text a \<Longrightarrow> is_text b \<Longrightarrow> label repr a = label repr b \<Longrightarrow> a = b"
  by (cases a; cases b) simp_all

lemma parsed_Cons:
  "parsed (f # fs) = (case parse_trivy_report f of None \<Rightarrow> parsed fs | Some r \<Rightarrow> r # parsed fs)"
  by (simp add: parsed_def List.map_filter_simps split: option.splits)

lemma files_loop_total:
  assumes "list_all text_keys (parsed fs)" "distinct (map report_image (parsed fs))"
    "\<forall>r \<in> set (parsed fs). label repr (report_image r) \<notin> family_images g"
  shows "snd (files_loop repr fromiso fs n) = None
     \<and> sum_list (map snd (fold family_step (fst (files_loop repr fromiso fs n)) g))
         = sum_list (map snd g) + findings_total fs"
  using assms
proof (induction fs arbitrary: n g)
  case Nil
  then show ?case by (simp add: findings_total_def parsed_def List.map_filter_simps)
next
  case (Cons f fs)
  show ?case
  proof (cases "parse_trivy_report f")
    case None
    then have p: "parsed (f # fs) = parsed fs" by (simp add: parsed_Cons)
    from Cons.IH [of g n] Cons.prems p None show ?thesis
      by (simp add: findings_total_def)
  next
    case (Some r)
    then have p: "parsed (f # fs) = r # parsed fs" by (simp add: parsed_Cons)
    have tr: "text_keys r" and tl: "list_all text_keys (parsed fs)"
      and dl: "distinct (map report_image (parsed fs))"
      and nr: "report_image r \<notin> report_image ` set (parsed fs)"
      and fr: "label repr (report_image r) \<notin> family_images g"
      and fl: "\<forall>r' \<in> set (parsed fs). label repr (report_image r') \<notin> family_images g"
      using Cons.prems p by simp_all
    from report_calls_text [OF tr fr, of fromiso]
    obtain cs where rc: "report_calls repr fromiso r = (cs, None)"
      and tot: "sum_list (map snd (fold family_step cs g)) = sum_list (map snd g) + length (vulnerabilities r)"
      and sub: "family_images (fold family_step cs g)
         \<subseteq> insert (label repr (report_image r)) (family_images g)"
      by blast
    have fl': "\<forall>r' \<in> set (parsed fs). label repr (report_image r') \<notin> family_images (fold family_step cs g)"
    proof
      fix r' assume m: "r' \<in> set (parsed fs)"
      have "report_image r' \<noteq> report_image r"
      proof
        assume "report_image r' = report_image r"
        with m have "report_image r \<in> report_image ` set (parsed fs)" by (metis imageI)
        with nr show False by simp
      qed
      moreover have "is_text (report_image r')" using tl m by (auto simp: list_all_iff text_keys_def)
      moreover have "is_text (report_image r)" using tr by (simp add: text_keys_def)
      ultimately have "label repr (report_image r') \<noteq> label repr (report_image r)"
        using label_text_inj by blast
      moreover have "label repr (report_image r') \<notin> family_images g" using fl m by simp
      ultimately show "label repr (report_image r') \<notin> family_images (fold family_step cs g)"
        using sub by blast
    qed
    obtain cs' e where fl2: "files_loop repr fromiso fs (n + 1) = (cs', e)"
      by (cases "files_loop repr fromiso fs (n + 1)")
    from Cons.IH [OF tl dl fl', of "n + 1"] fl2
    have e: "e = None" and t2: "sum_list (map snd (fold family_step cs' (fold family_step cs g)))
        = sum_list (map snd (fold family_step cs g)) + findings_total fs"
      by simp_all
    have ft: "findings_total (f # fs) = length (vulnerabilities r) + findings_total fs"
      by (simp add: findings_total_def p)
    show ?thesis
      using Some rc fl2 e t2 tot ft by simp
  qed
qed

lemma dashboard_info_calls_quiet: "fold family_step (dashboard_info_calls repr img v) g = g"
  by (simp add: dashboard_info_calls_def split: sum.splits)

lemma dashboard_count_loop_text:
  assumes "is_text img" "list_all (\<lambda>v. is_text (severity v) \<and> is_text (package v)) vs"
    "good_counts img c"
  shows "\<exists>cs c'. dashboard_count_loop repr img vs c = (cs, Inr c') \<and> (\<forall>g. fold family_step cs g = g)
           \<and> good_counts img c' \<and> sum_list (map snd c') = sum_list (map snd c) + length vs"
  using assms
proof (induction vs arbitrary: c)
  case Nil
  then show ?case by simp
next
  case (Cons v vs)
  have h: "hashable img" "hashable (severity v)" "hashable (package v)"
    using Cons.prems by (simp_all add: text_hashable)
  have g: "good_counts img (bump (img, severity v, package v) c)"
    using good_counts_bump [OF Cons.prems(3) Cons.prems(1)] Cons.prems(2) by simp
  from Cons.IH [OF Cons.prems(1) _ g] Cons.prems(2)
  obtain cs c' where r: "dashboard_count_loop repr img vs (bump (img, severity v, package v) c) = (cs, Inr c')"
    and q: "\<forall>g. fold family_step cs g = g" and gc: "good_counts img c'"
    and s: "sum_list (map snd c') = sum_list (map snd (bump (img, severity v, package v) c)) + length vs"
    by auto
  show ?case
    using h r q gc s by (simp add: dashboard_info_calls_quiet bump_total)
qed

lemma dashboard_report_calls_text:
  assumes "dashboard_text_keys r" "label repr (dashboard_image r) \<notin> family_images g"
  shows "\<exists>cs. dashboard_report_calls repr fromiso r = (cs, None)
     \<and> sum_list (map snd (fold family_step cs g)) = sum_list (map snd g) + length (dashboard_vulnerabilities r)
     \<and> family_images (fold family_step cs g)
         \<subseteq> insert (label repr (dashboard_image r)) (family_images g)"
proof -
  let ?img = "dashboard_image r"
  have ti: "is_text ?img"
    and tv: "list_all (\<lambda>v. is_text (severity v) \<and> is_text (package v)) (dashboard_vulnerabilities r)"
    using assms(1) by (simp_all add: dashboard_text_keys_def)
  from dashboard_count_loop_text [OF ti tv good_counts_Nil, of repr]
  obtain cs0 c where cl: "dashboard_count_loop repr ?img (dashboard_vulnerabilities r) [] = (cs0, Inr c)"
    and q: "\<forall>g. fold family_step cs0 g = g" and gc: "good_counts ?img c"
    and tot: "sum_list (map snd c) = length (dashboard_vulnerabilities r)"
    by auto
  have lab: "fst (key_labels repr k) = label repr ?img" if "k \<in> fst ` set c" for k
  proof -
    from gc that have "fst k = ?img" by (auto simp: good_counts_def)
    then show ?thesis by (cases k) (simp add: key_labels_def)
  qed
  have fresh: "\<forall>k \<in> fst ` set c. key_labels repr k \<notin> fst ` set g"
  proof
    fix k assume k: "k \<in> fst ` set c"
    show "key_labels repr k \<notin> fst ` set g"
    proof
      assume "key_labels repr k \<in> fst ` set g"
      then have "fst (key_labels repr k) \<in> family_images g" by (rule family_images_key)
      with lab [OF k] assms(2) show False by simp
    qed
  qed
  have d: "distinct (map fst c)" and t: "\<forall>k \<in> fst ` set c. text_key k"
    using gc by (auto simp: good_counts_def)
  let ?ts = "timestamp_calls repr fromiso
      \<lparr>report_image = dashboard_image r, scan_time = dashboard_scan_time r, vulnerabilities = []\<rparr>"
  let ?cs = "?ts @ cs0 @ count_calls repr c"
  have rc: "dashboard_report_calls repr fromiso r = (?cs, None)"
    by (simp add: dashboard_report_calls_def cl Let_def)
  have res: "fold family_step ?cs g = g @ map (\<lambda>(k, n). (key_labels repr k, n)) c"
    using count_calls_fresh [OF d t fresh] q by (simp add: timestamp_calls_quiet)
  have s1: "sum_list (map snd (map (\<lambda>(k, n). (key_labels repr k, n)) c)) = sum_list (map snd c)"
    by (induction c) auto
  have imgs: "family_images (map (\<lambda>(k, n). (key_labels repr k, n)) c) \<subseteq> {label repr ?img}"
  proof
    fix x assume "x \<in> family_images (map (\<lambda>(k, n). (key_labels repr k, n)) c)"
    then obtain k n where kn: "(k, n) \<in> set c" and x: "x = fst (key_labels repr k)"
      by (auto simp: family_images_def)
    from kn have "k \<in> fst ` set c" by force
    with lab x show "x \<in> {label repr ?img}" by simp
  qed
  have a: "sum_list (map snd (fold family_step ?cs g)) = sum_list (map snd g) + length (dashboard_vulnerabilities r)"
    unfolding res using s1 tot by simp
  have b: "family_images (fold family_step ?cs g) \<subseteq> insert (label repr ?img) (family_images g)"
    unfolding res family_images_append using imgs by auto
  from rc a b show ?thesis by blast
qed

lemma dashboard_parsed_Cons:
  "dashboard_parsed (f # fs) = (case dashboard_parse_trivy_report f of None \<Rightarrow> dashboard_parsed fs | Some r \<Rightarrow> r # dashboard_parsed fs)"
  by (simp add: dashboard_parsed_def List.map_filter_simps split: option.splits)

lemma dashboard_files_loop_total:
  assumes "list_all dashboard_text_keys (dashboard_parsed fs)" "distinct (map dashboard_image (dashboard_parsed fs))"
    "\<forall>r \<in> set (dashboard_parsed fs). label repr (dashboard_image r) \<notin> family_images g"
  shows "snd (dashboard_files_loop repr fromiso fs n) = None
     \<and> sum_list (map snd (fold family_step (fst (dashboard_files_loop repr fromiso fs n)) g))
         = sum_list (map snd g) + dashboard_findings_total fs"
  using assms
proof (induction fs arbitrary: n g)
  case Nil
  then show ?case by (simp add: dashboard_findings_total_def dashboard_parsed_def List.map_filter_simps)
next
  case (Cons f fs)
  show ?case
  proof (cases "dashboard_parse_trivy_report f")
    case None
    then have p: "dashboard_parsed (f # fs) = dashboard_parsed fs" by (simp add: dashboard_parsed_Cons)
    from Cons.IH [of g n] Cons.prems p None show ?thesis
      by (simp add: dashboard_findings_total_def)
  next
    case (Some r)
    then have p: "dashboard_parsed (f # fs) = r # dashboard_parsed fs" by (simp add: dashboard_parsed_Cons)
    have tr: "dashboard_text_keys r" and tl: "list_all dashboard_text_keys (dashboard_parsed fs)"
      and dl: "distinct (map dashboard_image (dashboard_parsed fs))"
      and nr: "dashboard_image r \<notin> dashboard_image ` set (dashboard_parsed fs)"
      and fr: "label repr (dashboard_image r) \<notin> family_images g"
      and fl: "\<forall>r' \<in> set (dashboard_parsed fs). label repr (dashboard_image r') \<notin> family_images g"
      using Cons.prems p by simp_all
    from dashboard_report_calls_text [OF tr fr, of fromiso]
    obtain cs where rc: "dashboard_report_calls repr fromiso r = (cs, None)"
      and tot: "sum_list (map snd (fold family_step cs g)) = sum_list (map snd g) + length (dashboard_vulnerabilities r)"
      and sub: "family_images (fold family_step cs g)
         \<subseteq> insert (label repr (dashboard_image r)) (family_images g)"
      by blast
    have fl': "\<forall>r' \<in> set (dashboard_parsed fs). label repr (dashboard_image r') \<notin> family_images (fold family_step cs g)"
    proof
      fix r' assume m: "r' \<in> set (dashboard_parsed fs)"
      have "dashboard_image r' \<noteq> dashboard_image r"
      proof
        assume "dashboard_image r' = dashboard_image r"
        with m have "dashboard_image r \<in> dashboard_image ` set (dashboard_parsed fs)" by (metis imageI)
        with nr show False by simp
      qed
      moreover have "is_text (dashboard_image r')" using tl m by (auto simp: list_all_iff dashboard_text_keys_def)
      moreover have "is_text (dashboard_image r)" using tr by (simp add: dashboard_text_keys_def)
      ultimately have "label repr (dashboard_image r') \<noteq> label repr (dashboard_image r)"
        using label_text_inj by blast
      moreover have "label repr (dashboard_image r') \<notin> family_images g" using fl m by simp
      ultimately show "label repr (dashboard_image r') \<notin> family_images (fold family_step cs g)"
        using sub by blast
    qed
    obtain cs' e where fl2: "dashboard_files_loop repr fromiso fs (n + 1) = (cs', e)"
      by (cases "dashboard_files_loop repr fromiso fs (n + 1)")
    from Cons.IH [OF tl dl fl', of "n + 1"] fl2
    have e: "e = None" and t2: "sum_list (map snd (fold family_step cs' (fold family_step cs g)))
        = sum_list (map snd (fold family_step cs g)) + dashboard_findings_total fs"
      by simp_all
    have ft: "dashboard_findings_total (f # fs) = length (dashboard_vulnerabilities r) + dashboard_findings_total fs"
      by (simp add: dashboard_findings_total_def p)
    show ?thesis
      using Some rc fl2 e t2 tot ft by simp
  qed
qed

text \<open>
  C3. Two report files with the same \<^verbatim>\<open>ArtifactName\<close>, each with two HIGH findings
  for libfoo: the findings total 4, and both reports set the one sample
  (app:1.0, HIGH, libfoo) to 2, so the count family sums to 2.
\<close>

theorem count_family_sums_to_findings_counterexample:
  "findings_total [Readable (Document (libfoo_document ''app:1.0'')),
                   Readable (Document (libfoo_document ''app:1.0''))] = 4
   \<and> update_metrics plain_repr no_clock
        (Files [Readable (Document (libfoo_document ''app:1.0'')),
                Readable (Document (libfoo_document ''app:1.0''))]) exporter0
     = (None, exporter0\<lparr>trivy_image_vulnerabilities := [((''app:1.0'', ''HIGH'', ''libfoo''), 2)],
          trivy_vulnerability_info :=
            [([''CVE-1'', ''app:1.0'', ''libfoo'', ''HIGH'', [], []], 1),
             ([''CVE-2'', ''app:1.0'', ''libfoo'', ''HIGH'', [], []], 1)],
          trivy_images_scanned := 2\<rparr>)
   \<and> family_total (exporter0\<lparr>trivy_image_vulnerabilities := [((''app:1.0'', ''HIGH'', ''libfoo''), 2)],
          trivy_vulnerability_info :=
            [([''CVE-1'', ''app:1.0'', ''libfoo'', ''HIGH'', [], []], 1),
             ([''CVE-2'', ''app:1.0'', ''libfoo'', ''HIGH'', [], []], 1)],
          trivy_images_scanned := 2\<rparr>) = 2"
  by (simp add: findings_total_def parsed_def List.map_filter_simps family_total_def
        update_metrics_def update_metrics_calls_def parse_trivy_report_def parse_body_def
        parse_document_def parse_result_def parse_vuln_def andthen_def libfoo_document_def
        libfoo_vuln_def report_calls_def info_calls_def timestamp_calls_def count_calls_def
        perform_all_def exporter0_def)

text \<open>
  C3, as the code has it. When the reports that parse have pairwise distinct image names,
  and their image names, severities and package names are strings, the cycle completes
  and the samples of the count family sum to the number of findings of these reports.
  This holds for \<^verbatim>\<open>update_metrics\<close> of trivy-exporter.py and, with the reports its
  own parser accepts, for that of the dashboard exporter.
\<close>

theorem count_family_sums_to_findings:
  assumes "list_all text_keys (parsed fs)" "distinct (map report_image (parsed fs))"
    "list_all dashboard_text_keys (dashboard_parsed fs)"
    "distinct (map dashboard_image (dashboard_parsed fs))"
  shows "fst (update_metrics repr fromiso (Files fs) m) = None
       \<and> family_total (snd (update_metrics repr fromiso (Files fs) m)) = findings_total fs
       \<and> fst (dashboard_update_metrics repr fromiso (Files fs) m) = None
       \<and> family_total (snd (dashboard_update_metrics repr fromiso (Files fs) m))
           = dashboard_findings_total fs"
proof (cases "fs = []")
  case True
  then show ?thesis
    by (simp add: update_metrics_def update_metrics_calls_def perform_all_def family_total_def
          findings_total_def parsed_def List.map_filter_simps dashboard_update_metrics_def
          dashboard_update_metrics_calls_def dashboard_findings_total_def dashboard_parsed_def)
next
  case False
  obtain cs e where fl: "files_loop repr fromiso fs 0 = (cs, e)"
    by (cases "files_loop repr fromiso fs 0")
  have "\<forall>r \<in> set (parsed fs). label repr (report_image r) \<notin> family_images []"
    by (simp add: family_images_def)
  from files_loop_total [OF assms(1,2) this, of fromiso 0] fl
  have e: "e = None" and t: "sum_list (map snd (fold family_step cs [])) = findings_total fs"
    by simp_all
  from False fl have u: "update_metrics_calls repr fromiso (Files fs)
      = (Clear_image_vulnerabilities # Clear_vulnerability_info # cs, e)"
    by (simp add: update_metrics_calls_def)
  obtain ds x where dl: "dashboard_files_loop repr fromiso fs 0 = (ds, x)"
    by (cases "dashboard_files_loop repr fromiso fs 0")
  have "\<forall>r \<in> set (dashboard_parsed fs). label repr (dashboard_image r) \<notin> family_images []"
    by (simp add: family_images_def)
  from dashboard_files_loop_total [OF assms(3,4) this, of fromiso 0] dl
  have x: "x = None" and dt: "sum_list (map snd (fold family_step ds [])) = dashboard_findings_total fs"
    by simp_all
  from False dl have du: "dashboard_update_metrics_calls repr fromiso (Files fs)
      = (Clear_image_vulnerabilities # ds, x)"
    by (simp add: dashboard_update_metrics_calls_def)
  show ?thesis
    using u e t du x dt
    by (simp add: update_metrics_def dashboard_update_metrics_def family_total_def family_perform_all)
qed

theorem count_family_sums_to_findings_witness:
  "list_all text_keys (parsed [Readable (Document (libfoo_document ''app:1.0'')),
                               Readable (Document (libfoo_document ''db:2''))])
   \<and> distinct (map report_image (parsed [Readable (Document (libfoo_document ''app:1.0'')),
                               Readable (Document (libfoo_document ''db:2''))]))
   \<and> list_all dashboard_text_keys (dashboard_parsed [Readable (Document (libfoo_document ''app:1.0'')),
                               Readable (Document (libfoo_document ''db:2''))])
   \<and> distinct (map dashboard_image (dashboard_parsed [Readable (Document (libfoo_document ''app:1.0'')),
                               Readable (Document (libfoo_document ''db:2''))]))
   \<and> findings_total [Readable (Document (libfoo_document ''app:1.0'')),
                     Readable (Document (libfoo_document ''db:2''))] = 4
   \<and> dashboard_findings_total [Readable (Document (libfoo_document ''app:1.0'')),
                     Readable (Document (libfoo_document ''db:2''))] = 4
   \<and> family_total (snd (update_metrics plain_repr no_clock
        (Files [Readable (Document (libfoo_document ''app:1.0'')),
                Readable (Document (libfoo_document ''db:2''))]) exporter0)) = 4
   \<and> family_total (snd (dashboard_update_metrics plain_repr no_clock
        (Files [Readable (Document (libfoo_document ''app:1.0'')),
                Readable (Document (libfoo_document ''db:2''))]) exporter0)) = 4"
proof -
  let ?fs = "[Readable (Document (libfoo_document ''app:1.0'')),
              Readable (Document (libfoo_document ''db:2''))]"
  have h1: "list_all text_keys (parsed ?fs)"
    and h2: "distinct (map report_image (parsed ?fs))"
    and n: "findings_total ?fs = 4"
    by (simp_all add: findings_total_def text_keys_def parsed_def List.map_filter_simps
        parse_trivy_report_def parse_body_def
        parse_document_def parse_result_def parse_vuln_def andthen_def libfoo_document_def
        libfoo_vuln_def)
  have h3: "list_all dashboard_text_keys (dashboard_parsed ?fs)"
    and h4: "distinct (map dashboard_image (dashboard_parsed ?fs))"
    and dn: "dashboard_findings_total ?fs = 4"
    by (simp_all add: dashboard_findings_total_def dashboard_text_keys_def dashboard_parsed_def
        List.map_filter_simps dashboard_parse_trivy_report_def
        dashboard_parse_document_def dashboard_parse_result_def dashboard_parse_vuln_def
        andthen_def libfoo_document_def libfoo_vuln_def)
  from count_family_sums_to_findings [OF h1 h2 h3 h4, of plain_repr no_clock exporter0] n dn h1 h2 h3 h4
  show ?thesis by simp
qed

section \<open>What a scrape can see during a cycle\<close>

lemma update_labels: "fst ` set (AList.update k v g) = insert k (fst ` set g)"
  by (induction g) auto

lemma labels_within_refl: "labels_within a a"
  by (simp add: labels_within_def)

lemma labels_within_trans: "labels_within a b \<Longrightarrow> labels_within b c \<Longrightarrow> labels_within a c"
  by (auto simp: labels_within_def)

lemma perform_grows: "\<not> is_clear c \<Longrightarrow> labels_within b (perform c b)"
  by (cases c) (auto simp: labels_within_def count_labels_def info_labels_def update_labels)

lemma perform_mono: "\<not> is_clear c \<Longrightarrow> labels_within a b \<Longrightarrow> labels_within (perform c a) (perform c b)"
  by (cases c) (auto simp: labels_within_def count_labels_def info_labels_def update_labels)

lemma perform_all_grows: "list_all (\<lambda>c. \<not> is_clear c) cs \<Longrightarrow> labels_within b (perform_all cs b)"
proof (induction cs arbitrary: b)
  case Nil
  then show ?case by (simp add: perform_all_def labels_within_refl)
next
  case (Cons c cs)
  then have "labels_within b (perform c b)" "labels_within (perform c b) (perform_all cs (perform c b))"
    by (simp_all add: perform_grows)
  then show ?case
    using labels_within_trans by (fastforce simp: perform_all_def)
qed

lemma exposed_within:
  assumes "list_all (\<lambda>c. \<not> is_clear c) cs" "s \<in> set (exposed cs a)" "labels_within a b"
  shows "labels_within s (perform_all cs b)"
  using assms
proof (induction cs arbitrary: a b)
  case Nil
  then show ?case by (simp add: perform_all_def)
next
  case (Cons c cs)
  have nc: "\<not> is_clear c" and rest: "list_all (\<lambda>c. \<not> is_clear c) cs"
    using Cons.prems(1) by simp_all
  from Cons.prems(2) consider "s = a" | "s \<in> set (exposed cs (perform c a))" by auto
  then show ?case
  proof cases
    case 1
    have "labels_within b (perform_all (c # cs) b)"
      using perform_all_grows [OF Cons.prems(1)] .
    with 1 Cons.prems(3) show ?thesis using labels_within_trans by blast
  next
    case 2
    from Cons.IH [OF rest 2 perform_mono [OF nc Cons.prems(3)]]
    show ?thesis by (simp add: perform_all_def)
  qed
qed

lemma info_calls_sets: "list_all (\<lambda>c. \<not> is_clear c) (info_calls repr img v)"
  by (simp add: info_calls_def split: sum.splits)

lemma timestamp_calls_sets: "list_all (\<lambda>c. \<not> is_clear c) (timestamp_calls repr fromiso r)"
  by (simp add: timestamp_calls_def split: json.splits option.splits)

lemma count_calls_sets: "list_all (\<lambda>c. \<not> is_clear c) (count_calls repr c)"
  by (induction c) (auto simp: count_calls_def)

lemma count_loop_sets: "list_all (\<lambda>c. \<not> is_clear c) (fst (count_loop repr img vs c))"
proof (induction vs arbitrary: c)
  case Nil
  then show ?case by simp
next
  case (Cons v vs)
  obtain cs r where e: "count_loop repr img vs (bump (img, severity v, package v) c) = (cs, r)"
    by (cases "count_loop repr img vs (bump (img, severity v, package v) c)")
  with Cons.IH [of "bump (img, severity v, package v) c"] have "list_all (\<lambda>c. \<not> is_clear c) cs"
    by simp
  with e show ?case by (simp add: info_calls_sets)
qed

lemma report_calls_sets: "list_all (\<lambda>c. \<not> is_clear c) (fst (report_calls repr fromiso r))"
proof -
  obtain cs x where e: "count_loop repr (report_image r) (vulnerabilities r) [] = (cs, x)"
    by (cases "count_loop repr (report_image r) (vulnerabilities r) []")
  with count_loop_sets [of repr "report_image r" "vulnerabilities r" "[]"]
  have "list_all (\<lambda>c. \<not> is_clear c) cs" by simp
  with e show ?thesis
    by (cases x) (simp_all add: report_calls_def timestamp_calls_sets count_calls_sets)
qed

lemma files_loop_sets: "list_all (\<lambda>c. \<not> is_clear c) (fst (files_loop repr fromiso fs n))"
proof (induction fs arbitrary: n)
  case Nil
  then show ?case by simp
next
  case (Cons f fs)
  show ?case
  proof (cases "parse_trivy_report f")
    case None
    with Cons.IH show ?thesis by simp
  next
    case (Some r)
    obtain cs e where rc: "report_calls repr fromiso r = (cs, e)"
      by (cases "report_calls repr fromiso r")
    with report_calls_sets [of repr fromiso r] have a: "list_all (\<lambda>c. \<not> is_clear c) cs" by simp
    obtain cs' e' where fl: "files_loop repr fromiso fs (n + 1) = (cs', e')"
      by (cases "files_loop repr fromiso fs (n + 1)")
    with Cons.IH [of "n + 1"] have b: "list_all (\<lambda>c. \<not> is_clear c) cs'" by simp
    from Some rc fl a b show ?thesis by (cases e) simp_all
  qed
qed

lemma update_metrics_calls_shape:
  "\<exists>cs. fst (update_metrics_calls repr fromiso d)
           = Clear_image_vulnerabilities # Clear_vulnerability_info # cs
        \<and> list_all (\<lambda>c. \<not> is_clear c) cs"
proof (cases d)
  case (Files fs)
  show ?thesis
  proof (cases "fs = []")
    case True
    with Files show ?thesis by (simp add: update_metrics_calls_def)
  next
    case False
    obtain cs e where fl: "files_loop repr fromiso fs 0 = (cs, e)"
      by (cases "files_loop repr fromiso fs 0")
    with files_loop_sets [of repr fromiso fs 0] have "list_all (\<lambda>c. \<not> is_clear c) cs" by simp
    with Files False fl show ?thesis
      by (simp add: update_metrics_calls_def)
  qed
qed (simp_all add: update_metrics_calls_def)

lemma perform_families:
  "trivy_image_vulnerabilities a = trivy_image_vulnerabilities b \<Longrightarrow>
   trivy_vulnerability_info a = trivy_vulnerability_info b \<Longrightarrow>
     trivy_image_vulnerabilities (perform c a) = trivy_image_vulnerabilities (perform c b)
   \<and> trivy_vulnerability_info (perform c a) = trivy_vulnerability_info (perform c b)"
  by (cases c) simp_all

lemma perform_all_families:
  "trivy_image_vulnerabilities a = trivy_image_vulnerabilities b \<Longrightarrow>
   trivy_vulnerability_info a = trivy_vulnerability_info b \<Longrightarrow>
     trivy_image_vulnerabilities (perform_all cs a) = trivy_image_vulnerabilities (perform_all cs b)
   \<and> trivy_vulnerability_info (perform_all cs a) = trivy_vulnerability_info (perform_all cs b)"
proof (induction cs arbitrary: a b)
  case Nil
  then show ?case by (simp add: perform_all_def)
next
  case (Cons c cs)
  from perform_families [OF Cons.prems, of c] Cons.IH [of "perform c a" "perform c b"]
  show ?case by (simp add: perform_all_def)
qed

lemma last_exposed: "last (exposed cs m) = perform_all cs m"
  by (induction cs arbitrary: m) (simp_all add: perform_all_def, (case_tac cs; simp)+)

lemma old_metrics_value:
  "old_metrics = exporter0\<lparr>trivy_image_vulnerabilities := [((''old:1'', ''HIGH'', ''libfoo''), 2)],
          trivy_vulnerability_info :=
            [([''CVE-1'', ''old:1'', ''libfoo'', ''HIGH'', [], []], 1),
             ([''CVE-2'', ''old:1'', ''libfoo'', ''HIGH'', [], []], 1)],
          trivy_images_scanned := 1\<rparr>"
  by (simp add: old_metrics_def update_metrics_def update_metrics_calls_def parse_trivy_report_def
        parse_body_def parse_document_def parse_result_def parse_vuln_def andthen_def
        libfoo_document_def libfoo_vuln_def report_calls_def info_calls_def timestamp_calls_def
        count_calls_def perform_all_def exporter0_def)

lemma new_cycle_calls_value:
  "update_metrics_calls plain_repr no_clock new_directory =
     ([Clear_image_vulnerabilities, Clear_vulnerability_info,
       Set_vulnerability_info [''CVE-1'', ''new:2'', ''libfoo'', ''HIGH'', [], []],
       Set_vulnerability_info [''CVE-2'', ''new:2'', ''libfoo'', ''HIGH'', [], []],
       Set_image_vulnerabilities (''new:2'', ''HIGH'', ''libfoo'') 2,
       Set_images_scanned 1], None)"
  by (simp add: new_directory_def update_metrics_calls_def parse_trivy_report_def
        parse_body_def parse_document_def parse_result_def parse_vuln_def andthen_def
        libfoo_document_def libfoo_vuln_def report_calls_def info_calls_def timestamp_calls_def
        count_calls_def)

text \<open>
  C1. \<^verbatim>\<open>update_metrics\<close> holds no lock and the handler reads the registry at any
  moment, so a scrape can see the metrics after any of the calls of a cycle. A cycle over
  a report for new:2, started on the metrics of a cycle over a report for old:1, passes
  through seven states: the first holds the old count family, the last the new one, and
  the fourth holds an empty count family and one of the two new detail samples, which is
  neither the old label set nor the new one.
\<close>

theorem cycle_exposes_partial_state_counterexample:
  "length exposed_during_new_cycle = 7
   \<and> trivy_image_vulnerabilities (exposed_during_new_cycle ! 0)
       = [((''old:1'', ''HIGH'', ''libfoo''), 2)]
   \<and> trivy_image_vulnerabilities (exposed_during_new_cycle ! 3) = []
   \<and> trivy_vulnerability_info (exposed_during_new_cycle ! 3)
       = [([''CVE-1'', ''new:2'', ''libfoo'', ''HIGH'', [], []], 1)]
   \<and> trivy_image_vulnerabilities (exposed_during_new_cycle ! 6)
       = [((''new:2'', ''HIGH'', ''libfoo''), 2)]
   \<and> trivy_vulnerability_info (exposed_during_new_cycle ! 6)
       = [([''CVE-1'', ''new:2'', ''libfoo'', ''HIGH'', [], []], 1),
          ([''CVE-2'', ''new:2'', ''libfoo'', ''HIGH'', [], []], 1)]"
  by (simp add: exposed_during_new_cycle_def new_cycle_calls_value old_metrics_value exporter0_def)

text \<open>
  C1, as the code has it. Every state the metrics pass through during a cycle of
  trivy-exporter.py holds the detail family of before the cycle, with the count family
  of before the cycle or an empty one, or else holds only count and detail labels that
  the completed cycle exposes. The families the completed cycle exposes are the same
  whatever the metrics held before, and they are the last state passed through.
\<close>

theorem cycle_exposes_old_or_new_labels:
  assumes "s \<in> set (exposed (fst (update_metrics_calls repr fromiso d)) m)"
  shows "(((trivy_image_vulnerabilities s = trivy_image_vulnerabilities m
            \<or> trivy_image_vulnerabilities s = [])
           \<and> trivy_vulnerability_info s = trivy_vulnerability_info m)
          \<or> labels_within s (snd (update_metrics repr fromiso d m')))
       \<and> trivy_image_vulnerabilities (snd (update_metrics repr fromiso d m))
           = trivy_image_vulnerabilities (snd (update_metrics repr fromiso d m'))
       \<and> trivy_vulnerability_info (snd (update_metrics repr fromiso d m))
           = trivy_vulnerability_info (snd (update_metrics repr fromiso d m'))
       \<and> last (exposed (fst (update_metrics_calls repr fromiso d)) m)
           = snd (update_metrics repr fromiso d m)"
proof -
  obtain cs where calls: "fst (update_metrics_calls repr fromiso d)
        = Clear_image_vulnerabilities # Clear_vulnerability_info # cs"
    and sets: "list_all (\<lambda>c. \<not> is_clear c) cs"
    using update_metrics_calls_shape [of repr fromiso d] by blast
  let ?clear = "\<lambda>x. perform Clear_vulnerability_info (perform Clear_image_vulnerabilities x)"
  have final: "snd (update_metrics repr fromiso d x) = perform_all cs (?clear x)" for x
    using calls by (cases "update_metrics_calls repr fromiso d") (simp add: update_metrics_def perform_all_def)
  from assms calls consider "s = m" | "s = perform Clear_image_vulnerabilities m"
    | "s \<in> set (exposed cs (?clear m))"
    by auto
  then have first: "((trivy_image_vulnerabilities s = trivy_image_vulnerabilities m
            \<or> trivy_image_vulnerabilities s = [])
           \<and> trivy_vulnerability_info s = trivy_vulnerability_info m)
          \<or> labels_within s (snd (update_metrics repr fromiso d m'))"
  proof cases
    case 1
    then show ?thesis by simp
  next
    case 2
    then show ?thesis by simp
  next
    case 3
    have "labels_within (?clear m) (?clear m')"
      by (simp add: labels_within_def count_labels_def info_labels_def)
    from exposed_within [OF sets 3 this] show ?thesis by (simp add: final)
  qed
  have same: "trivy_image_vulnerabilities (perform_all cs (?clear m))
        = trivy_image_vulnerabilities (perform_all cs (?clear m'))
      \<and> trivy_vulnerability_info (perform_all cs (?clear m))
        = trivy_vulnerability_info (perform_all cs (?clear m'))"
    by (rule perform_all_families) simp_all
  have "last (exposed (fst (update_metrics_calls repr fromiso d)) m)
      = perform_all (fst (update_metrics_calls repr fromiso d)) m"
    by (rule last_exposed)
  also have "\<dots> = snd (update_metrics repr fromiso d m)"
    by (cases "update_metrics_calls repr fromiso d") (simp add: update_metrics_def)
  finally have l: "last (exposed (fst (update_metrics_calls repr fromiso d)) m)
      = snd (update_metrics repr fromiso d m)" .
  from first same l show ?thesis by (simp add: final)
qed

theorem cycle_exposes_old_or_new_labels_witness:
  "exposed_during_new_cycle ! 3
     \<in> set (exposed (fst (update_metrics_calls plain_repr no_clock new_directory)) old_metrics)
   \<and> trivy_vulnerability_info (exposed_during_new_cycle ! 3) \<noteq> trivy_vulnerability_info old_metrics
   \<and> labels_within (exposed_during_new_cycle ! 3)
        (snd (update_metrics plain_repr no_clock new_directory exporter0))
   \<and> trivy_image_vulnerabilities (snd (update_metrics plain_repr no_clock new_directory old_metrics))
       = trivy_image_vulnerabilities (snd (update_metrics plain_repr no_clock new_directory exporter0))"
proof -
  have h: "exposed_during_new_cycle ! 3
     \<in> set (exposed (fst (update_metrics_calls plain_repr no_clock new_directory)) old_metrics)"
    by (simp add: exposed_during_new_cycle_def new_cycle_calls_value)
  have n: "trivy_vulnerability_info (exposed_during_new_cycle ! 3) \<noteq> trivy_vulnerability_info old_metrics"
    by (simp add: exposed_during_new_cycle_def new_cycle_calls_value old_metrics_value exporter0_def)
  from cycle_exposes_old_or_new_labels [OF h, of exporter0] h n show ?thesis
    by blast
qed

end
